theory Spec2Isabelle
  imports Main "HOL-Library.Sublist"
begin

section \<open>Values exchanged with the browser\<close>

text \<open>
  The four scripts drive a browser through the synchronous Playwright API. Every call
  into the library, every file operation and every read from standard input can raise;
  the exception classes that matter are kept as an enumeration. Printing to the
  terminal and \<^verbatim>\<open>time.sleep\<close> are taken to return always.
\<close>

datatype error = TimeoutError | PlaywrightError | OSError | EOFError

text \<open>A console message as the handlers read it: \<^verbatim>\<open>msg.type\<close> and \<^verbatim>\<open>msg.text\<close>.\<close>

record console_msg =
  msg_type :: string
  msg_text :: string

text \<open>
  Locators are lazy descriptions of elements: \<^verbatim>\<open>page.locator(sel)\<close>, \<^verbatim>\<open>.first\<close>, and the
  members of the list that \<^verbatim>\<open>.all()\<close> returns.
\<close>

datatype locator = Locator string | First locator | Nth locator nat

text \<open>
  One event per operation that returned. Durations are in milliseconds
  (\<^verbatim>\<open>time.sleep(0.5)\<close> is \<open>Sleep 500\<close>). The JavaScript text given to
  \<^verbatim>\<open>page.evaluate\<close> is not interpreted: what it logs reaches the run as console messages.
\<close>

datatype event =
    PlaywrightStart
  | PlaywrightStop
  | Launch bool
  | NewContext
  | NewPage
  | OnConsole
  | Goto string
  | WaitForLoadState string
  | WaitForTimeout nat
  | Click locator
  | LocatorAll locator
  | Content
  | Screenshot string bool
  | Evaluate
  | Close
  | Sleep nat
  | Input string
  | Print string
  | FileOpen string
  | FileWrite string string
  | FileClose string

text \<open>
  The world outside the script. \<open>fails n\<close> is the outcome of the \<open>n\<close>-th fallible
  call of the run, \<open>console n\<close> the console messages the page delivers while that call is
  in progress, \<open>matches l\<close> the number of elements a locator matches and \<open>html\<close> the
  page source, as the list of its Unicode code points. \<open>unicode_lower\<close> is the lowercase
  mapping of the Python runtime for the code points above 127: the code points that
  replace one, given the text before and after it (the mapping of capital sigma depends
  on both).
\<close>

record world =
  fails :: "nat \<Rightarrow> error option"
  console :: "nat \<Rightarrow> console_msg list"
  matches :: "locator \<Rightarrow> nat"
  html :: "nat list"
  unicode_lower :: "nat list \<Rightarrow> nat \<Rightarrow> nat list \<Rightarrow> nat list"

text \<open>The two console listeners of the repository.\<close>

datatype handler = HandleConsoleCapture | HandleConsoleGet

text \<open>
  The state of a run: the number of fallible calls made so far, the operations that
  returned (in order), the listener registered with \<^verbatim>\<open>page.on('console', ...)\<close> and the list
  \<^verbatim>\<open>console_messages\<close> of \<^verbatim>\<open>get-console.py\<close>.
\<close>

record state =
  clock :: nat
  trace :: "event list"
  on_console :: "handler option"
  console_messages :: "console_msg list"

type_synonym 'a prog = "world \<Rightarrow> state \<Rightarrow> (error + 'a) \<times> state"

section \<open>Strings\<close>

text \<open>
  The strings the scripts print, compare and search are modelled as lists of 8-bit
  characters (UTF-8 for the three non-ASCII symbols the scripts print). The page source
  is lowercased, which acts on code points, and is kept as a list of code points.
\<close>

definition nl :: string where
  "nl = [CHR 0x0A]"

definition check_mark :: string where
  "check_mark = [CHR 0xE2, CHR 0x9C, CHR 0x93]"

definition ballot_x :: string where
  "ballot_x = [CHR 0xE2, CHR 0x9C, CHR 0x97]"

definition magnifier :: string where
  "magnifier = [CHR 0xF0, CHR 0x9F, CHR 0x94, CHR 0x8D]"

text \<open>\<^verbatim>\<open>needle in hay\<close> on strings: \<open>needle\<close> occurs as a contiguous substring.\<close>

fun str_in :: "'a list \<Rightarrow> 'a list \<Rightarrow> bool" where
  "str_in needle [] = (needle = [])"
| "str_in needle (c # cs) = (take (length needle) (c # cs) = needle \<or> str_in needle cs)"

text \<open>
  \<^verbatim>\<open>str.lower()\<close> replaces every code point by its lowercase form: below 128 the
  letters A to Z become a to z and every other code point stays; from 128 on the
  runtime's mapping gives the replacement, which may be several code points
  (U+0130 becomes \<^verbatim>\<open>i\<close> followed by U+0307).
\<close>

definition ascii_lower :: "nat \<Rightarrow> nat" where
  "ascii_lower c = (if 65 \<le> c \<and> c \<le> 90 then c + 32 else c)"

fun lower_from ::
  "(nat list \<Rightarrow> nat \<Rightarrow> nat list \<Rightarrow> nat list) \<Rightarrow> nat list \<Rightarrow> nat list \<Rightarrow> nat list" where
  "lower_from tbl before [] = []"
| "lower_from tbl before (c # after) =
     (if c < 128 then [ascii_lower c] else tbl before c after)
       @ lower_from tbl (before @ [c]) after"

definition lower :: "(nat list \<Rightarrow> nat \<Rightarrow> nat list \<Rightarrow> nat list) \<Rightarrow> nat list \<Rightarrow> nat list" where
  "lower tbl s = lower_from tbl [] s"

text \<open>The code points of a string literal of the source that is plain ASCII.\<close>

definition codepoints :: "string \<Rightarrow> nat list" where
  "codepoints s = map of_char s"

text \<open>\<^verbatim>\<open>str(n)\<close> for a length: decimal digits, most significant first.\<close>

definition digit :: "nat \<Rightarrow> char" where
  "digit d = char_of (48 + d)"

fun show_nat :: "nat \<Rightarrow> string" where
  "show_nat n = (if n < 10 then [digit n] else show_nat (n div 10) @ [digit (n mod 10)])"

declare show_nat.simps [simp del]

section \<open>Operations\<close>

definition emit :: "event \<Rightarrow> state \<Rightarrow> state" where
  "emit ev s = s\<lparr>trace := trace s @ [ev]\<rparr>"

definition tick :: "state \<Rightarrow> state" where
  "tick s = s\<lparr>clock := Suc (clock s)\<rparr>"

text \<open>
  \<^verbatim>\<open>capture-console.py\<close>, \<open>handle_console\<close>: print the message when it is a \<^verbatim>\<open>log\<close> whose
  text mentions the chart layout; nothing else happens.
\<close>

definition capture_handle_console :: "console_msg \<Rightarrow> state \<Rightarrow> state" where
  "capture_handle_console msg s =
     (if msg_type msg = ''log'' \<and> str_in ''CandleChart layout:'' (msg_text msg)
      then emit (Print (nl @ magnifier @ '' CONSOLE LOG: '' @ msg_text msg)) s
      else s)"

text \<open>\<^verbatim>\<open>get-console.py\<close>, \<open>handle_console\<close>: append the record to \<^verbatim>\<open>console_messages\<close>.\<close>

definition get_handle_console :: "console_msg \<Rightarrow> state \<Rightarrow> state" where
  "get_handle_console msg s =
     s\<lparr>console_messages :=
         console_messages s @ [\<lparr>msg_type = msg_type msg, msg_text = msg_text msg\<rparr>]\<rparr>"

fun invoke :: "handler \<Rightarrow> console_msg \<Rightarrow> state \<Rightarrow> state" where
  "invoke HandleConsoleCapture msg s = capture_handle_console msg s"
| "invoke HandleConsoleGet msg s = get_handle_console msg s"

text \<open>Messages are handed to the registered listener one by one, in arrival order.\<close>

fun dispatch :: "console_msg list \<Rightarrow> state \<Rightarrow> state" where
  "dispatch [] s = s"
| "dispatch (m # ms) s =
     dispatch ms (case on_console s of None \<Rightarrow> s | Some h \<Rightarrow> invoke h m s)"

text \<open>
  A Playwright call: the synchronous API runs its event loop while the call is pending,
  so the console messages that arrive meanwhile reach the listener; then the call
  either raises or returns its value.
\<close>

definition api :: "event \<Rightarrow> (world \<Rightarrow> 'a) \<Rightarrow> 'a prog" where
  "api ev f w s =
     (let s1 = tick (dispatch (console w (clock s)) s)
      in case fails w (clock s) of
           Some e \<Rightarrow> (Inl e, s1)
         | None \<Rightarrow> (Inr (f w), emit ev s1))"

text \<open>A fallible call outside Playwright (files, standard input): no listener runs.\<close>

definition sys_call :: "event \<Rightarrow> unit prog" where
  "sys_call ev w s =
     (case fails w (clock s) of
        Some e \<Rightarrow> (Inl e, tick s)
      | None \<Rightarrow> (Inr (), emit ev (tick s)))"

definition skip :: "unit prog" where
  "skip w s = (Inr (), s)"

definition print :: "string \<Rightarrow> unit prog" where
  "print str w s = (Inr (), emit (Print str) s)"

definition sleep :: "nat \<Rightarrow> unit prog" where
  "sleep ms w s = (Inr (), emit (Sleep ms) s)"

definition input :: "string \<Rightarrow> unit prog" where
  "input prompt = sys_call (Input prompt)"

definition launch :: "bool \<Rightarrow> unit prog" where
  "launch headless = api (Launch headless) (\<lambda>_. ())"

definition new_context :: "unit prog" where
  "new_context = api NewContext (\<lambda>_. ())"

definition new_page :: "unit prog" where
  "new_page = api NewPage (\<lambda>_. ())"

text \<open>\<^verbatim>\<open>page.on('console', h)\<close> registers the listener; it makes no round trip.\<close>

definition page_on :: "handler \<Rightarrow> unit prog" where
  "page_on h w s = (Inr (), emit OnConsole (s\<lparr>on_console := Some h\<rparr>))"

definition goto :: "string \<Rightarrow> unit prog" where
  "goto url = api (Goto url) (\<lambda>_. ())"

definition wait_for_load_state :: "string \<Rightarrow> unit prog" where
  "wait_for_load_state st = api (WaitForLoadState st) (\<lambda>_. ())"

definition wait_for_timeout :: "nat \<Rightarrow> unit prog" where
  "wait_for_timeout ms = api (WaitForTimeout ms) (\<lambda>_. ())"

definition click :: "locator \<Rightarrow> unit prog" where
  "click l = api (Click l) (\<lambda>_. ())"

definition locator_all :: "locator \<Rightarrow> locator list prog" where
  "locator_all l = api (LocatorAll l) (\<lambda>w. map (Nth l) [0..<matches w l])"

definition content :: "nat list prog" where
  "content = api Content html"

definition screenshot :: "string \<Rightarrow> bool \<Rightarrow> unit prog" where
  "screenshot path full_page = api (Screenshot path full_page) (\<lambda>_. ())"

definition evaluate :: "unit prog" where
  "evaluate = api Evaluate (\<lambda>_. ())"

definition close :: "unit prog" where
  "close = api Close (\<lambda>_. ())"

text \<open>\<^verbatim>\<open>html.lower()\<close>, with the lowercase mapping of the runtime.\<close>

definition str_lower :: "nat list \<Rightarrow> nat list prog" where
  "str_lower x w s = (Inr (lower (unicode_lower w) x), s)"

definition file_write :: "string \<Rightarrow> string \<Rightarrow> unit prog" where
  "file_write path str = sys_call (FileWrite path str)"

section \<open>Control\<close>

text \<open>Sequencing: an exception ends the sequence, and the state reached so far stays.\<close>

definition bind :: "'a prog \<Rightarrow> ('a \<Rightarrow> 'b prog) \<Rightarrow> 'b prog" where
  "bind m f w s = (case m w s of (Inl e, s') \<Rightarrow> (Inl e, s') | (Inr x, s') \<Rightarrow> f x w s')"

fun steps :: "unit prog list \<Rightarrow> unit prog" where
  "steps [] w s = (Inr (), s)"
| "steps (c # cs) w s =
     (case c w s of (Inl e, s') \<Rightarrow> (Inl e, s') | (Inr _, s') \<Rightarrow> steps cs w s')"

fun for_each :: "'a list \<Rightarrow> ('a \<Rightarrow> unit prog) \<Rightarrow> unit prog" where
  "for_each [] body w s = (Inr (), s)"
| "for_each (x # xs) body w s =
     (case body x w s of (Inl e, s') \<Rightarrow> (Inl e, s') | (Inr _, s') \<Rightarrow> for_each xs body w s')"

text \<open>
  \<^verbatim>\<open>with sync_playwright() as p:\<close> starts the driver, runs the body and stops the driver
  on the way out, whether the body returned or raised.
\<close>

definition with_sync_playwright :: "unit prog \<Rightarrow> unit prog" where
  "with_sync_playwright body w s =
     (case sys_call PlaywrightStart w s of
        (Inl e, s1) \<Rightarrow> (Inl e, s1)
      | (Inr _, s1) \<Rightarrow> (case body w s1 of (r, s2) \<Rightarrow> (r, emit PlaywrightStop s2)))"

text \<open>\<^verbatim>\<open>with open(path, 'w') as f:\<close> creates or truncates the file and closes it on the way out.\<close>

definition with_open :: "string \<Rightarrow> unit prog \<Rightarrow> unit prog" where
  "with_open path body w s =
     (case sys_call (FileOpen path) w s of
        (Inl e, s1) \<Rightarrow> (Inl e, s1)
      | (Inr _, s1) \<Rightarrow> (case body w s1 of (r, s2) \<Rightarrow> (r, emit (FileClose path) s2)))"

definition get_console_messages :: "console_msg list prog" where
  "get_console_messages w s = (Inr (console_messages s), s)"

definition set_console_messages :: "console_msg list \<Rightarrow> unit prog" where
  "set_console_messages ms w s = (Inr (), s\<lparr>console_messages := ms\<rparr>)"

section \<open>The scripts\<close>

definition token_url :: string where
  "token_url = ''http://localhost:3005/token/token-7''"

definition button :: "string \<Rightarrow> locator" where
  "button label = First (Locator (''button:has-text('' @ [CHR 0x22] @ label @ [CHR 0x22] @ '')''))"

text \<open>\<^verbatim>\<open>capture-console.py\<close>\<close>

definition capture_console :: "unit prog" where
  "capture_console = with_sync_playwright (steps [
     launch False,
     new_context,
     new_page,
     page_on HandleConsoleCapture,
     print ''Navigating to token page...'',
     goto token_url,
     wait_for_load_state ''networkidle'',
     sleep 2000,
     print (nl @ ''Clicking Indicators button...''),
     click (button ''Indicators''),
     sleep 500,
     print ''Clicking RSI button...'',
     click (button ''RSI''),
     sleep 2000,
     print (nl @ ''=== Check console output above ===''),
     input ''Press Enter to close browser...'',
     close])"

text \<open>\<^verbatim>\<open>test-indicators.py\<close>\<close>

definition test_indicators :: "unit prog" where
  "test_indicators = with_sync_playwright (steps [
     launch False,
     new_page,
     print ''Navigating to token page...'',
     goto token_url,
     wait_for_load_state ''networkidle'',
     sleep 2000,
     screenshot ''/tmp/01-before-indicators.png'' False,
     print (check_mark @ '' Took screenshot before enabling indicators''),
     print (nl @ ''Looking for Indicators button...''),
     click (button ''Indicators''),
     print (check_mark @ '' Clicked Indicators button''),
     sleep 500,
     print (nl @ ''Clicking RSI button...''),
     click (button ''RSI''),
     print (check_mark @ '' Clicked RSI button''),
     sleep 1000,
     screenshot ''/tmp/02-after-rsi.png'' False,
     print (check_mark @ '' Took screenshot after enabling RSI''),
     print (nl @ ''Clicking MACD button...''),
     click (button ''MACD''),
     print (check_mark @ '' Clicked MACD button''),
     sleep 1000,
     screenshot ''/tmp/03-after-macd.png'' False,
     print (check_mark @ '' Took screenshot after enabling MACD''),
     print (nl @ ''Clicking Stoch RSI button...''),
     click (button ''Stoch RSI''),
     print (check_mark @ '' Clicked Stoch RSI button''),
     sleep 1000,
     screenshot ''/tmp/04-all-indicators.png'' False,
     print (check_mark @ '' Took screenshot with all indicators enabled''),
     print (nl @ ''Checking console logs...''),
     wait_for_timeout 1000,
     close,
     print (nl @ ''=== Test Complete ===''),
     print ''Screenshots saved:'',
     print ''  /tmp/01-before-indicators.png'',
     print ''  /tmp/02-after-rsi.png'',
     print ''  /tmp/03-after-macd.png'',
     print ''  /tmp/04-all-indicators.png''])"

text \<open>\<^verbatim>\<open>debug-indicators.py\<close>\<close>

definition found_line :: string where
  "found_line = check_mark @ '' 'rsi' found in page HTML''"

definition not_found_line :: string where
  "not_found_line = ballot_x @ '' 'rsi' NOT found in page HTML''"

definition debug_indicators :: "unit prog" where
  "debug_indicators = with_sync_playwright (steps [
     launch False,
     new_page,
     print ''Navigating to token page...'',
     goto token_url,
     wait_for_load_state ''networkidle'',
     sleep 2000,
     print ''Clicking Indicators button...'',
     click (button ''Indicators''),
     sleep 500,
     print ''Clicking RSI button...'',
     click (button ''RSI''),
     sleep 1000,
     print (nl @ ''=== Checking DOM for RSI subchart ===''),
     bind (locator_all (Locator ''text=RSI'')) (\<lambda>rsi_elements.
       print (''Found '' @ show_nat (length rsi_elements) @ '' elements with 'RSI' text'')),
     bind (locator_all (Locator (''[class*='' @ [CHR 0x22] @ ''chart'' @ [CHR 0x22] @ '']''))) (\<lambda>subcharts.
       print (''Found '' @ show_nat (length subcharts) @ '' chart-related elements'')),
     bind (locator_all (Locator ''.recharts-wrapper'')) (\<lambda>container.
       print (''Found '' @ show_nat (length container) @ '' recharts-wrapper elements'')),
     bind content (\<lambda>html. bind (str_lower html) (\<lambda>lowered.
       if str_in (codepoints ''rsi'') lowered then print found_line else print not_found_line)),
     bind (locator_all (Locator ''.recharts-responsive-container'')) (\<lambda>responsive_containers.
       print (''Found '' @ show_nat (length responsive_containers) @ '' ResponsiveContainer elements'')),
     screenshot ''/tmp/chart-bottom-zoom.png'' False,
     print (nl @ ''=== Checking Console ===''),
     evaluate,
     sleep 1000,
     close,
     print (nl @ ''=== Debug Complete ===''),
     print ''Screenshot saved: /tmp/chart-bottom-zoom.png''])"

text \<open>\<^verbatim>\<open>get-console.py\<close>\<close>

definition log_path :: string where
  "log_path = ''/tmp/console-logs.txt''"

definition log_line :: "console_msg \<Rightarrow> string" where
  "log_line msg = msg_type msg @ '': '' @ msg_text msg @ nl"

definition get_console_logs :: "unit prog" where
  "get_console_logs = with_sync_playwright (steps [
     launch False,
     new_page,
     set_console_messages [],
     page_on HandleConsoleGet,
     print ''Navigating...'',
     goto token_url,
     wait_for_load_state ''networkidle'',
     sleep 2000,
     print ''Clicking RSI...'',
     click (button ''Indicators''),
     sleep 500,
     click (button ''RSI''),
     sleep 2000,
     print (nl @ ''=== CONSOLE LOGS (CandleChart layout) ===''),
     bind get_console_messages (\<lambda>msgs. for_each msgs (\<lambda>msg.
       if str_in ''CandleChart layout:'' (msg_text msg) then print (msg_text msg) else skip)),
     with_open log_path
       (bind get_console_messages (\<lambda>msgs. for_each msgs (\<lambda>msg.
          file_write log_path (log_line msg)))),
     print (nl @ ''Logs saved to /tmp/console-logs.txt''),
     print ''Close browser to exit...'',
     input ''Press Enter...'',
     close])"

section \<open>Running a script\<close>

text \<open>
  A script is started as a process with an argument vector and an environment; the
  guard \<^verbatim>\<open>if __name__ == '__main__':\<close> calls the script's function with neither.
\<close>

record invocation =
  argv :: "string list"
  environ :: "string \<rightharpoonup> string"

definition init :: state where
  "init = \<lparr>clock = 0, trace = [], on_console = None, console_messages = []\<rparr>"

definition capture_console_main :: "invocation \<Rightarrow> world \<Rightarrow> (error + unit) \<times> state" where
  "capture_console_main iv w = capture_console w init"

definition debug_indicators_main :: "invocation \<Rightarrow> world \<Rightarrow> (error + unit) \<times> state" where
  "debug_indicators_main iv w = debug_indicators w init"

definition get_console_main :: "invocation \<Rightarrow> world \<Rightarrow> (error + unit) \<times> state" where
  "get_console_main iv w = get_console_logs w init"

definition test_indicators_main :: "invocation \<Rightarrow> world \<Rightarrow> (error + unit) \<times> state" where
  "test_indicators_main iv w = test_indicators w init"


datatype script = CaptureConsole | DebugIndicators | GetConsole | TestIndicators

fun run :: "script \<Rightarrow> invocation \<Rightarrow> world \<Rightarrow> (error + unit) \<times> state" where
  "run CaptureConsole = capture_console_main"
| "run DebugIndicators = debug_indicators_main"
| "run GetConsole = get_console_main"
| "run TestIndicators = test_indicators_main"

declare run.simps [simp del]

fun script_body :: "script \<Rightarrow> unit prog" where
  "script_body CaptureConsole = capture_console"
| "script_body DebugIndicators = debug_indicators"
| "script_body GetConsole = get_console_logs"
| "script_body TestIndicators = test_indicators"

section \<open>Observations on a run\<close>

text \<open>
  The operations of a trace: everything but the lines written to the terminal or to a
  file and the events that leaving a \<^verbatim>\<open>with\<close> block adds.
\<close>

fun is_op :: "event \<Rightarrow> bool" where
  "is_op (Print _) = False"
| "is_op (FileWrite _ _) = False"
| "is_op (FileClose _) = False"
| "is_op PlaywrightStop = False"
| "is_op _ = True"

definition ops :: "event list \<Rightarrow> event list" where
  "ops tr = filter is_op tr"

text \<open>The calls on the browser, its context and its page.\<close>

fun is_browser_op :: "event \<Rightarrow> bool" where
  "is_browser_op (Launch _) = True"
| "is_browser_op NewContext = True"
| "is_browser_op NewPage = True"
| "is_browser_op OnConsole = True"
| "is_browser_op (Goto _) = True"
| "is_browser_op (WaitForLoadState _) = True"
| "is_browser_op (WaitForTimeout _) = True"
| "is_browser_op (Click _) = True"
| "is_browser_op (LocatorAll _) = True"
| "is_browser_op Content = True"
| "is_browser_op (Screenshot _ _) = True"
| "is_browser_op Evaluate = True"
| "is_browser_op Close = True"
| "is_browser_op _ = False"

text \<open>Navigation, clicks and captures.\<close>

fun is_ui :: "event \<Rightarrow> bool" where
  "is_ui (Goto _) = True"
| "is_ui (Click _) = True"
| "is_ui (Screenshot _ _) = True"
| "is_ui _ = False"

text \<open>Waits: fixed pauses, and the wait for a load state.\<close>

fun is_pause :: "event \<Rightarrow> bool" where
  "is_pause (Sleep _) = True"
| "is_pause (WaitForTimeout _) = True"
| "is_pause _ = False"

fun is_load_wait :: "event \<Rightarrow> bool" where
  "is_load_wait (WaitForLoadState _) = True"
| "is_load_wait _ = False"

definition is_wait :: "event \<Rightarrow> bool" where
  "is_wait e \<longleftrightarrow> is_pause e \<or> is_load_wait e"

fun is_sleep :: "event \<Rightarrow> bool" where
  "is_sleep (Sleep _) = True"
| "is_sleep _ = False"

fun is_input :: "event \<Rightarrow> bool" where
  "is_input (Input _) = True"
| "is_input _ = False"

text \<open>The lines printed to the terminal, in order.\<close>

fun printed :: "event \<Rightarrow> string list" where
  "printed (Print x) = [x]"
| "printed _ = []"

definition stdout :: "event list \<Rightarrow> string list" where
  "stdout tr = concat (map printed tr)"

text \<open>The files a run creates: images by screenshots, text files by \<^verbatim>\<open>open(path, 'w')\<close>.\<close>

datatype artifact = Image string | TextFile string

fun written :: "event \<Rightarrow> artifact list" where
  "written (Screenshot path _) = [Image path]"
| "written (FileOpen path) = [TextFile path]"
| "written _ = []"

definition artifacts :: "event list \<Rightarrow> artifact list" where
  "artifacts tr = concat (map written tr)"



text \<open>
  Browsers launched, pages created, and pages created and not yet closed by
  \<^verbatim>\<open>browser.close()\<close>.
\<close>

definition browsers_launched :: "event list \<Rightarrow> nat" where
  "browsers_launched tr = length (filter (\<lambda>e. e = Launch False \<or> e = Launch True) tr)"

definition pages_created :: "event list \<Rightarrow> nat" where
  "pages_created tr = length (filter (\<lambda>e. e = NewPage) tr)"

fun page_step :: "nat \<Rightarrow> event \<Rightarrow> nat" where
  "page_step n NewPage = Suc n"
| "page_step n Close = 0"
| "page_step n _ = n"

definition pages_open :: "event list \<Rightarrow> nat" where
  "pages_open tr = foldl page_step 0 tr"

section \<open>The operations each script performs\<close>

fun plan :: "script \<Rightarrow> event list" where
  \<open>plan CaptureConsole =
     [PlaywrightStart, Launch False, NewContext, NewPage, OnConsole,
      Goto ''http://localhost:3005/token/token-7'',
      WaitForLoadState ''networkidle'', Sleep 2000,
      Click (First (Locator ''button:has-text("Indicators")'')), Sleep 500,
      Click (First (Locator ''button:has-text("RSI")'')), Sleep 2000,
      Input ''Press Enter to close browser...'', Close]\<close>
| \<open>plan DebugIndicators =
     [PlaywrightStart, Launch False, NewPage,
      Goto ''http://localhost:3005/token/token-7'',
      WaitForLoadState ''networkidle'', Sleep 2000,
      Click (First (Locator ''button:has-text("Indicators")'')), Sleep 500,
      Click (First (Locator ''button:has-text("RSI")'')), Sleep 1000,
      LocatorAll (Locator ''text=RSI''),
      LocatorAll (Locator ''[class*="chart"]''),
      LocatorAll (Locator ''.recharts-wrapper''),
      Content,
      LocatorAll (Locator ''.recharts-responsive-container''),
      Screenshot ''/tmp/chart-bottom-zoom.png'' False,
      Evaluate, Sleep 1000, Close]\<close>
| \<open>plan GetConsole =
     [PlaywrightStart, Launch False, NewPage, OnConsole,
      Goto ''http://localhost:3005/token/token-7'',
      WaitForLoadState ''networkidle'', Sleep 2000,
      Click (First (Locator ''button:has-text("Indicators")'')), Sleep 500,
      Click (First (Locator ''button:has-text("RSI")'')), Sleep 2000,
      FileOpen ''/tmp/console-logs.txt'',
      Input ''Press Enter...'', Close]\<close>
| \<open>plan TestIndicators =
     [PlaywrightStart, Launch False, NewPage,
      Goto ''http://localhost:3005/token/token-7'',
      WaitForLoadState ''networkidle'', Sleep 2000,
      Screenshot ''/tmp/01-before-indicators.png'' False,
      Click (First (Locator ''button:has-text("Indicators")'')), Sleep 500,
      Click (First (Locator ''button:has-text("RSI")'')), Sleep 1000,
      Screenshot ''/tmp/02-after-rsi.png'' False,
      Click (First (Locator ''button:has-text("MACD")'')), Sleep 1000,
      Screenshot ''/tmp/03-after-macd.png'' False,
      Click (First (Locator ''button:has-text("Stoch RSI")'')), Sleep 1000,
      Screenshot ''/tmp/04-all-indicators.png'' False,
      WaitForTimeout 1000, Close]\<close>

text \<open>
  \<open>performs c evs\<close>: whatever the world does, \<open>c\<close> adds to the operations of the trace
  an initial part of \<open>evs\<close>, and all of \<open>evs\<close> when it returns.
\<close>

definition performs :: "'a prog \<Rightarrow> event list \<Rightarrow> bool" where
  "performs c evs \<longleftrightarrow> (\<forall>w s r s'. c w s = (r, s') \<longrightarrow>
     (\<exists>xs. prefix xs evs \<and> ops (trace s') = ops (trace s) @ xs \<and> (isl r \<or> xs = evs)))"

text \<open>
  \<open>fail_stop c\<close>: every call \<open>c\<close> attempts succeeds, except that the last one fails
  when \<open>c\<close> raises, and then \<open>c\<close> raises that very error.
\<close>

definition fail_stop :: "'a prog \<Rightarrow> bool" where
  "fail_stop c \<longleftrightarrow> (\<forall>w s r s'. c w s = (r, s') \<longrightarrow>
     clock s \<le> clock s' \<and>
     (case r of
        Inr x \<Rightarrow> (\<forall>k. clock s \<le> k \<and> k < clock s' \<longrightarrow> fails w k = None)
      | Inl e \<Rightarrow> clock s < clock s' \<and> fails w (clock s' - 1) = Some e \<and>
          (\<forall>k. clock s \<le> k \<and> k < clock s' - 1 \<longrightarrow> fails w k = None)))"

text \<open>
  \<open>determ c\<close>: the outcome depends on the world only through the page and through the
  outcomes of the calls that were attempted.
\<close>

definition same_page :: "world \<Rightarrow> world \<Rightarrow> bool" where
  "same_page w w' \<longleftrightarrow> console w' = console w \<and> matches w' = matches w \<and>
     html w' = html w \<and> unicode_lower w' = unicode_lower w"

definition determ :: "'a prog \<Rightarrow> bool" where
  "determ c \<longleftrightarrow> (\<forall>w w' s r s'. c w s = (r, s') \<longrightarrow> same_page w w' \<longrightarrow>
     (\<forall>k. clock s \<le> k \<and> k < clock s' \<longrightarrow> fails w' k = fails w k) \<longrightarrow> c w' s = (r, s'))"

definition regular :: "'a prog \<Rightarrow> bool" where
  "regular c \<longleftrightarrow> fail_stop c \<and> determ c"

text \<open>The same world with no call failing.\<close>

definition quiet :: "world \<Rightarrow> world" where
  "quiet w = w\<lparr>fails := (\<lambda>_. None)\<rparr>"

text \<open>
  The events of fallible calls, the events that leaving a \<^verbatim>\<open>with\<close> block adds, and what
  a trace shows apart from the latter.
\<close>

fun is_call :: "event \<Rightarrow> bool" where
  "is_call OnConsole = False"
| "is_call (Sleep _) = False"
| "is_call (Print _) = False"
| "is_call PlaywrightStop = False"
| "is_call (FileClose _) = False"
| "is_call _ = True"

fun is_exit :: "event \<Rightarrow> bool" where
  "is_exit PlaywrightStop = True"
| "is_exit (FileClose _) = True"
| "is_exit _ = False"

definition visible :: "event list \<Rightarrow> event list" where
  "visible tr = filter (\<lambda>e. \<not> is_exit e) tr"

text \<open>
  \<open>abrupt c\<close>: \<open>c\<close> only adds to the trace; when it returns, it does the same with no
  call failing; when it raises, what it has done, block exits apart, is what it does
  with no call failing up to a call, the one that failed.
\<close>

definition abrupt :: "'a prog \<Rightarrow> bool" where
  "abrupt c \<longleftrightarrow> (\<forall>w s r s'. c w s = (r, s') \<longrightarrow>
     prefix (trace s) (trace s') \<and>
     (case r of
        Inr x \<Rightarrow> c (quiet w) s = (Inr x, s')
      | Inl e \<Rightarrow> (\<exists>ev rest. is_call ev \<and>
          visible (trace (snd (c (quiet w) s))) = visible (trace s') @ ev # rest)))"

text \<open>
  Polling: a query of the page (elements matched, page source, evaluation of a script)
  that is issued again later in the run.
\<close>

fun is_query :: "event \<Rightarrow> bool" where
  "is_query (LocatorAll _) = True"
| "is_query Content = True"
| "is_query Evaluate = True"
| "is_query _ = False"

fun polls :: "event list \<Rightarrow> bool" where
  "polls [] = False"
| "polls (e # es) = (is_query e \<and> e \<in> set es \<or> polls es)"


section \<open>Vocabulary of the properties\<close>

text \<open>
  The console messages that \<^verbatim>\<open>capture-console.py\<close> is said to print, and the line it
  prints for one of them.
\<close>

definition shown :: "console_msg \<Rightarrow> bool" where
  "shown msg \<longleftrightarrow> msg_type msg = ''log'' \<and> str_in ''CandleChart layout:'' (msg_text msg)"

definition console_line :: "console_msg \<Rightarrow> string" where
  "console_line msg = nl @ magnifier @ '' CONSOLE LOG: '' @ msg_text msg"


text \<open>
  Sample inputs: an invocation without arguments, a world in which every call succeeds
  and the page is silent, one in which the click on the RSI button of
  \<^verbatim>\<open>test-indicators.py\<close> (its call number 7) times out, and one in which the browser
  cannot be launched (call number 1).
\<close>

definition no_args :: invocation where
  "no_args = \<lparr>argv = [], environ = Map.empty\<rparr>"

definition calm :: world where
  "calm = \<lparr>fails = (\<lambda>_. None), console = (\<lambda>_. []), matches = (\<lambda>_. 0), html = [],
     unicode_lower = (\<lambda>_ c _. [c])\<rparr>"

definition rsi_missing :: world where
  "rsi_missing = calm\<lparr>fails := (\<lambda>n. if n = 7 then Some TimeoutError else None)\<rparr>"

definition launch_fails :: world where
  "launch_fails = calm\<lparr>fails := (\<lambda>n. if n = 1 then Some PlaywrightError else None)\<rparr>"

text \<open>
  Waiting as the scripts do it. Every pause has one of the durations written in the
  source; a navigation is followed directly by the wait for the load state
  \<^verbatim>\<open>networkidle\<close>, that wait by a sleep of two seconds, a click by a sleep, and a
  load-state wait follows nothing else.
\<close>

fun pause_ok :: "event \<Rightarrow> bool" where
  "pause_ok (Sleep d) = (d = 500 \<or> d = 1000 \<or> d = 2000)"
| "pause_ok (WaitForTimeout d) = (d = 1000)"
| "pause_ok (WaitForLoadState st) = (st = ''networkidle'')"
| "pause_ok _ = True"

fun after_ok :: "event \<Rightarrow> event \<Rightarrow> bool" where
  "after_ok (Goto u) e = (e = WaitForLoadState ''networkidle'')"
| "after_ok (WaitForLoadState st) e = (e = Sleep 2000)"
| "after_ok (Click l) e = is_sleep e"
| "after_ok _ e = (\<not> is_load_wait e)"

fun chain :: "event \<Rightarrow> event list \<Rightarrow> bool" where
  "chain p [] = True"
| "chain p (e # es) = (after_ok p e \<and> chain e es)"

definition synchronised :: "event list \<Rightarrow> bool" where
  "synchronised tr \<longleftrightarrow> list_all pause_ok tr \<and>
     (case tr of [] \<Rightarrow> True | e # es \<Rightarrow> \<not> is_load_wait e \<and> chain e es)"

text \<open>The files each script is said to write, in the order of writing.\<close>

fun outputs :: "script \<Rightarrow> artifact list" where
  "outputs CaptureConsole = []"
| "outputs DebugIndicators = [Image ''/tmp/chart-bottom-zoom.png'']"
| "outputs GetConsole = [TextFile ''/tmp/console-logs.txt'']"
| "outputs TestIndicators =
     [Image ''/tmp/01-before-indicators.png'', Image ''/tmp/02-after-rsi.png'',
      Image ''/tmp/03-after-macd.png'', Image ''/tmp/04-all-indicators.png'']"




section \<open>Composition lemmas\<close>

lemma ops_emit [simp]: "ops (trace (emit ev s)) = ops (trace s) @ (if is_op ev then [ev] else [])"
  by (simp add: ops_def emit_def)

lemma trace_tick [simp]: "trace (tick s) = trace s"
  by (simp add: tick_def)

lemma ops_invoke [simp]: "ops (trace (invoke h m s)) = ops (trace s)"
  by (cases h) (simp_all add: capture_handle_console_def get_handle_console_def)

lemma ops_dispatch [simp]: "ops (trace (dispatch ms s)) = ops (trace s)"
  by (induction ms arbitrary: s) (simp_all split: option.splits)

lemma performs_api: "is_op ev \<Longrightarrow> performs (api ev f) [ev]"
  by (auto simp: performs_def api_def Let_def split: option.splits)

lemma performs_sys_call: "performs (sys_call ev) (if is_op ev then [ev] else [])"
  by (auto simp: performs_def sys_call_def split: option.splits)

lemma performs_print: "performs (print x) []"
  by (auto simp: performs_def print_def)

lemma performs_skip: "performs skip []"
  by (auto simp: performs_def skip_def)

lemma performs_sleep: "performs (sleep d) [Sleep d]"
  by (auto simp: performs_def sleep_def)

lemma performs_page_on: "performs (page_on h) [OnConsole]"
  by (auto simp: performs_def page_on_def ops_def emit_def)

lemma performs_get: "performs get_console_messages []"
  by (auto simp: performs_def get_console_messages_def)

lemma performs_set: "performs (set_console_messages ms) []"
  by (auto simp: performs_def set_console_messages_def)

lemma performs_str_lower: "performs (str_lower x) []"
  by (auto simp: performs_def str_lower_def)

lemma performs_bind:
  assumes "performs m e1" and "\<And>x. performs (f x) e2" and "e = e1 @ e2"
  shows "performs (bind m f) e"
  unfolding performs_def
proof (intro allI impI)
  fix w s r s'
  assume run: "bind m f w s = (r, s')"
  obtain r1 s1 where m: "m w s = (r1, s1)" by (cases "m w s")
  from assms(1) m obtain xs where xs: "prefix xs e1" "ops (trace s1) = ops (trace s) @ xs" "isl r1 \<or> xs = e1"
    unfolding performs_def by blast
  show "\<exists>xs. prefix xs e \<and> ops (trace s') = ops (trace s) @ xs \<and> (isl r \<or> xs = e)"
  proof (cases r1)
    case (Inl err)
    with run m have "r = Inl err" "s' = s1" by (simp_all add: bind_def)
    with xs assms(3) show ?thesis by (auto intro: prefix_prefix)
  next
    case (Inr x)
    with run m have f: "f x w s1 = (r, s')" by (simp add: bind_def)
    from Inr xs have x1: "xs = e1" by simp
    from assms(2) [of x] f obtain ys where ys: "prefix ys e2" "ops (trace s') = ops (trace s1) @ ys" "isl r \<or> ys = e2"
      unfolding performs_def by blast
    from ys xs x1 assms(3) have "prefix (e1 @ ys) e \<and> ops (trace s') = ops (trace s) @ (e1 @ ys) \<and> (isl r \<or> e1 @ ys = e)"
      by auto
    then show ?thesis by blast
  qed
qed

lemma steps_Cons_bind: "steps (c # cs) = bind c (\<lambda>_. steps cs)"
  by (rule ext, rule ext) (simp add: bind_def split: prod.splits sum.splits)

lemma performs_steps_Nil: "performs (steps []) []"
  by (auto simp: performs_def)

lemma performs_steps_Cons:
  "performs c e1 \<Longrightarrow> performs (steps cs) e2 \<Longrightarrow> e = e1 @ e2 \<Longrightarrow> performs (steps (c # cs)) e"
  unfolding steps_Cons_bind by (rule performs_bind)

lemma for_each_Cons_bind: "for_each (x # xs) body = bind (body x) (\<lambda>_. for_each xs body)"
  by (rule ext, rule ext) (simp add: bind_def split: prod.splits sum.splits)

lemma performs_for_each: "(\<And>x. performs (body x) []) \<Longrightarrow> performs (for_each xs body) []"
proof (induction xs)
  case Nil
  show ?case by (auto simp: performs_def)
next
  case (Cons x xs)
  show ?case unfolding for_each_Cons_bind
    by (rule performs_bind [OF Cons.prems Cons.IH [OF Cons.prems]]) simp
qed

lemma performs_with_sync_playwright:
  assumes "performs body e" shows "performs (with_sync_playwright body) (PlaywrightStart # e)"
proof -
  have eq: "with_sync_playwright body = bind (sys_call PlaywrightStart) (\<lambda>_ w s. case body w s of (r, s2) \<Rightarrow> (r, emit PlaywrightStop s2))"
    by (rule ext, rule ext) (simp add: with_sync_playwright_def bind_def split: prod.splits sum.splits)
  have "performs (\<lambda>w s. case body w s of (r, s2) \<Rightarrow> (r, emit PlaywrightStop s2)) e"
    using assms unfolding performs_def by (auto split: prod.splits) 
  then show ?thesis unfolding eq
    by (rule performs_bind [OF performs_sys_call]) simp
qed

lemma performs_with_open:
  assumes "performs body e" shows "performs (with_open path body) (FileOpen path # e)"
proof -
  have eq: "with_open path body = bind (sys_call (FileOpen path)) (\<lambda>_ w s. case body w s of (r, s2) \<Rightarrow> (r, emit (FileClose path) s2))"
    by (rule ext, rule ext) (simp add: with_open_def bind_def split: prod.splits sum.splits)
  have "performs (\<lambda>w s. case body w s of (r, s2) \<Rightarrow> (r, emit (FileClose path) s2)) e"
    using assms unfolding performs_def by (auto split: prod.splits) 
  then show ?thesis unfolding eq
    by (rule performs_bind [OF performs_sys_call]) simp
qed

lemma performs_if: "performs c e \<Longrightarrow> performs d e \<Longrightarrow> performs (if b then c else d) e"
  by simp

lemma performs_ops:
  "performs (launch h) [Launch h]"
  "performs new_context [NewContext]"
  "performs new_page [NewPage]"
  "performs (goto u) [Goto u]"
  "performs (wait_for_load_state st) [WaitForLoadState st]"
  "performs (wait_for_timeout d) [WaitForTimeout d]"
  "performs (click l) [Click l]"
  "performs (locator_all l) [LocatorAll l]"
  "performs content [Content]"
  "performs (screenshot p fp) [Screenshot p fp]"
  "performs evaluate [Evaluate]"
  "performs close [Close]"
  "performs (input pr) [Input pr]"
  "performs (file_write p x) []"
  using performs_sys_call [of "Input pr"] performs_sys_call [of "FileWrite p x"]
  by (simp_all add: launch_def new_context_def new_page_def goto_def wait_for_load_state_def
      wait_for_timeout_def click_def locator_all_def content_def screenshot_def evaluate_def
      close_def input_def file_write_def performs_api)

lemmas performs_intros = performs_ops performs_print performs_skip performs_sleep performs_page_on
  performs_get performs_set performs_str_lower performs_bind performs_steps_Nil performs_steps_Cons performs_for_each
  performs_with_sync_playwright performs_with_open performs_if

lemma clock_emit [simp]: "clock (emit ev s) = clock s"
  by (simp add: emit_def)

lemma clock_tick [simp]: "clock (tick s) = Suc (clock s)"
  by (simp add: tick_def)

lemma clock_invoke [simp]: "clock (invoke h m s) = clock s"
  by (cases h) (simp_all add: capture_handle_console_def get_handle_console_def)

lemma clock_dispatch [simp]: "clock (dispatch ms s) = clock s"
  by (induction ms arbitrary: s) (simp_all split: option.splits)

lemma le_less_Suc_eq_self: "n \<le> k \<Longrightarrow> k < Suc n \<Longrightarrow> k = n"
  by simp

lemma fail_stop_api: "fail_stop (api ev f)"
  by (auto simp: fail_stop_def api_def Let_def split: option.splits dest: le_less_Suc_eq_self)

lemma fail_stop_sys_call: "fail_stop (sys_call ev)"
  by (auto simp: fail_stop_def sys_call_def split: option.splits dest: le_less_Suc_eq_self)

lemma fail_stop_pure:
  "fail_stop (print x)" "fail_stop skip" "fail_stop (sleep d)" "fail_stop (page_on h)"
  "fail_stop get_console_messages" "fail_stop (set_console_messages ms)"
  "fail_stop (str_lower y)"
  by (auto simp: fail_stop_def print_def skip_def sleep_def page_on_def
      get_console_messages_def set_console_messages_def str_lower_def)

lemma fail_stop_bind:
  assumes "fail_stop m" and "\<And>x. fail_stop (f x)"
  shows "fail_stop (bind m f)"
  unfolding fail_stop_def
proof (intro allI impI)
  fix w s r s'
  assume run: "bind m f w s = (r, s')"
  obtain r1 s1 where m: "m w s = (r1, s1)" by (cases "m w s")
  from assms(1) m have m1: "clock s \<le> clock s1"
    and m2: "case r1 of
        Inr x \<Rightarrow> (\<forall>k. clock s \<le> k \<and> k < clock s1 \<longrightarrow> fails w k = None)
      | Inl e \<Rightarrow> clock s < clock s1 \<and> fails w (clock s1 - 1) = Some e \<and>
          (\<forall>k. clock s \<le> k \<and> k < clock s1 - 1 \<longrightarrow> fails w k = None)"
    unfolding fail_stop_def by blast+
  show "clock s \<le> clock s' \<and>
     (case r of
        Inr x \<Rightarrow> (\<forall>k. clock s \<le> k \<and> k < clock s' \<longrightarrow> fails w k = None)
      | Inl e \<Rightarrow> clock s < clock s' \<and> fails w (clock s' - 1) = Some e \<and>
          (\<forall>k. clock s \<le> k \<and> k < clock s' - 1 \<longrightarrow> fails w k = None))"
  proof (cases r1)
    case (Inl err)
    with run m have "r = Inl err" "s' = s1" by (simp_all add: bind_def)
    with m1 m2 Inl show ?thesis by simp
  next
    case (Inr x)
    with run m have f: "f x w s1 = (r, s')" by (simp add: bind_def)
    from Inr m2 have a: "\<forall>k. clock s \<le> k \<and> k < clock s1 \<longrightarrow> fails w k = None" by simp
    from assms(2) [of x] f have f1: "clock s1 \<le> clock s'"
      and f2: "case r of
        Inr x \<Rightarrow> (\<forall>k. clock s1 \<le> k \<and> k < clock s' \<longrightarrow> fails w k = None)
      | Inl e \<Rightarrow> clock s1 < clock s' \<and> fails w (clock s' - 1) = Some e \<and>
          (\<forall>k. clock s1 \<le> k \<and> k < clock s' - 1 \<longrightarrow> fails w k = None)"
      unfolding fail_stop_def by blast+
    show ?thesis
    proof (cases r)
      case (Inl err)
      with f2 have "clock s1 < clock s'" "fails w (clock s' - 1) = Some err"
        "\<forall>k. clock s1 \<le> k \<and> k < clock s' - 1 \<longrightarrow> fails w k = None" by simp_all
      with a m1 Inl show ?thesis by (auto simp: not_less [symmetric])
    next
      case (Inr y)
      with f2 have "\<forall>k. clock s1 \<le> k \<and> k < clock s' \<longrightarrow> fails w k = None" by simp
      with a m1 f1 Inr show ?thesis by (auto simp: not_less [symmetric])
    qed
  qed
qed

lemma fail_stop_steps_Nil: "fail_stop (steps [])"
  by (auto simp: fail_stop_def)

lemma fail_stop_steps_Cons: "fail_stop c \<Longrightarrow> fail_stop (steps cs) \<Longrightarrow> fail_stop (steps (c # cs))"
  unfolding steps_Cons_bind by (rule fail_stop_bind)

lemma fail_stop_for_each: "(\<And>x. fail_stop (body x)) \<Longrightarrow> fail_stop (for_each xs body)"
proof (induction xs)
  case Nil
  show ?case by (auto simp: fail_stop_def)
next
  case (Cons x xs)
  show ?case unfolding for_each_Cons_bind
    by (rule fail_stop_bind [OF Cons.prems Cons.IH [OF Cons.prems]])
qed

lemma fail_stop_finally:
  assumes "fail_stop body" shows "fail_stop (\<lambda>w s. case body w s of (r, s2) \<Rightarrow> (r, emit ev s2))"
  unfolding fail_stop_def
proof (intro allI impI)
  fix w s r s'
  assume "(case body w s of (r, s2) \<Rightarrow> (r, emit ev s2)) = (r, s')"
  then obtain s2 where b: "body w s = (r, s2)" and s': "s' = emit ev s2"
    by (auto split: prod.splits)
  from assms b show "clock s \<le> clock s' \<and>
     (case r of
        Inr x \<Rightarrow> (\<forall>k. clock s \<le> k \<and> k < clock s' \<longrightarrow> fails w k = None)
      | Inl e \<Rightarrow> clock s < clock s' \<and> fails w (clock s' - 1) = Some e \<and>
          (\<forall>k. clock s \<le> k \<and> k < clock s' - 1 \<longrightarrow> fails w k = None))"
    unfolding fail_stop_def s' clock_emit by blast
qed

lemma with_sync_playwright_bind:
  "with_sync_playwright body =
     bind (sys_call PlaywrightStart) (\<lambda>_ w s. case body w s of (r, s2) \<Rightarrow> (r, emit PlaywrightStop s2))"
  by (rule ext, rule ext) (simp add: with_sync_playwright_def bind_def split: prod.splits sum.splits)

lemma with_open_bind:
  "with_open path body =
     bind (sys_call (FileOpen path)) (\<lambda>_ w s. case body w s of (r, s2) \<Rightarrow> (r, emit (FileClose path) s2))"
  by (rule ext, rule ext) (simp add: with_open_def bind_def split: prod.splits sum.splits)

lemma fail_stop_with_sync_playwright: "fail_stop body \<Longrightarrow> fail_stop (with_sync_playwright body)"
  unfolding with_sync_playwright_bind
  by (rule fail_stop_bind [OF fail_stop_sys_call fail_stop_finally])

lemma fail_stop_with_open: "fail_stop body \<Longrightarrow> fail_stop (with_open path body)"
  unfolding with_open_bind
  by (rule fail_stop_bind [OF fail_stop_sys_call fail_stop_finally])

lemma fail_stop_if: "fail_stop c \<Longrightarrow> fail_stop d \<Longrightarrow> fail_stop (if b then c else d)"
  by simp

lemma fail_stop_ops:
  "fail_stop (launch h)"
  "fail_stop new_context"
  "fail_stop new_page"
  "fail_stop (goto u)"
  "fail_stop (wait_for_load_state st)"
  "fail_stop (wait_for_timeout d)"
  "fail_stop (click l)"
  "fail_stop (locator_all l)"
  "fail_stop content"
  "fail_stop (screenshot p fp)"
  "fail_stop evaluate"
  "fail_stop close"
  "fail_stop (input pr)"
  "fail_stop (file_write p x)"
  by (simp_all add: launch_def new_context_def new_page_def goto_def wait_for_load_state_def
      wait_for_timeout_def click_def locator_all_def content_def screenshot_def evaluate_def
      close_def input_def file_write_def fail_stop_api fail_stop_sys_call)

lemmas fail_stop_intros = fail_stop_ops fail_stop_pure fail_stop_bind fail_stop_steps_Nil
  fail_stop_steps_Cons fail_stop_for_each fail_stop_with_sync_playwright fail_stop_with_open
  fail_stop_if

lemma fail_stop_mono: "fail_stop c \<Longrightarrow> c w s = (r, s') \<Longrightarrow> clock s \<le> clock s'"
  unfolding fail_stop_def by blast

lemma determ_api: "(\<And>w w'. same_page w w' \<Longrightarrow> f w' = f w) \<Longrightarrow> determ (api ev f)"
  unfolding determ_def
proof (intro allI impI)
  fix w w' s r s'
  assume f: "\<And>w w'. same_page w w' \<Longrightarrow> f w' = f w"
    and run: "api ev f w s = (r, s')" and sp: "same_page w w'"
    and ag: "\<forall>k. clock s \<le> k \<and> k < clock s' \<longrightarrow> fails w' k = fails w k"
  from run have "clock s' = Suc (clock s)"
    by (auto simp: api_def Let_def split: option.splits)
  with ag have "fails w' (clock s) = fails w (clock s)" by simp
  moreover from sp have "console w' = console w" by (simp add: same_page_def)
  moreover from f sp have "f w' = f w" .
  ultimately show "api ev f w' s = (r, s')" using run by (simp add: api_def Let_def split: option.splits)
qed

lemma determ_sys_call: "determ (sys_call ev)"
  unfolding determ_def
proof (intro allI impI)
  fix w w' :: world and s r s'
  assume run: "sys_call ev w s = (r, s')"
    and ag: "\<forall>k. clock s \<le> k \<and> k < clock s' \<longrightarrow> fails w' k = fails w k"
  from run have "clock s' = Suc (clock s)"
    by (auto simp: sys_call_def split: option.splits)
  with ag have "fails w' (clock s) = fails w (clock s)" by simp
  then show "sys_call ev w' s = (r, s')" using run by (simp add: sys_call_def)
qed

lemma determ_pure:
  "determ (print x)" "determ skip" "determ (sleep d)" "determ (page_on h)"
  "determ get_console_messages" "determ (set_console_messages ms)"
  "determ (str_lower y)"
  by (auto simp: determ_def print_def skip_def sleep_def page_on_def
      get_console_messages_def set_console_messages_def str_lower_def same_page_def)

lemma regular_bind:
  assumes m: "regular m" and f: "\<And>x. regular (f x)"
  shows "regular (bind m f)"
  unfolding regular_def
proof
  from m f show "fail_stop (bind m f)"
    by (simp add: regular_def fail_stop_bind)
next
  show "determ (bind m f)"
    unfolding determ_def
  proof (intro allI impI)
    fix w w' s r s'
    assume run: "bind m f w s = (r, s')" and sp: "same_page w w'"
      and ag: "\<forall>k. clock s \<le> k \<and> k < clock s' \<longrightarrow> fails w' k = fails w k"
    obtain r1 s1 where m1: "m w s = (r1, s1)" by (cases "m w s")
    from m m1 have le1: "clock s \<le> clock s1" by (auto simp: regular_def dest: fail_stop_mono)
    from m have dm: "determ m" by (simp add: regular_def)
    show "bind m f w' s = (r, s')"
    proof (cases r1)
      case (Inl err)
      with run m1 have eq: "r = Inl err" "s' = s1" by (simp_all add: bind_def)
      with ag have "\<forall>k. clock s \<le> k \<and> k < clock s1 \<longrightarrow> fails w' k = fails w k" by simp
      with dm m1 sp have "m w' s = (r1, s1)" unfolding determ_def by blast
      with Inl eq show ?thesis by (simp add: bind_def)
    next
      case (Inr x)
      with run m1 have fx: "f x w s1 = (r, s')" by (simp add: bind_def)
      from f [of x] fx have le2: "clock s1 \<le> clock s'" by (auto simp: regular_def dest: fail_stop_mono)
      from f [of x] have df: "determ (f x)" by (simp add: regular_def)
      from ag le2 have "\<forall>k. clock s \<le> k \<and> k < clock s1 \<longrightarrow> fails w' k = fails w k" by auto
      with dm m1 sp have m2: "m w' s = (r1, s1)" unfolding determ_def by blast
      from ag le1 have "\<forall>k. clock s1 \<le> k \<and> k < clock s' \<longrightarrow> fails w' k = fails w k" by auto
      with df fx sp have "f x w' s1 = (r, s')" unfolding determ_def by blast
      with m2 Inr show ?thesis by (simp add: bind_def)
    qed
  qed
qed

lemma regular_steps_Nil: "regular (steps [])"
  by (auto simp: regular_def fail_stop_def determ_def)

lemma regular_steps_Cons: "regular c \<Longrightarrow> regular (steps cs) \<Longrightarrow> regular (steps (c # cs))"
  unfolding steps_Cons_bind by (rule regular_bind)

lemma regular_for_each: "(\<And>x. regular (body x)) \<Longrightarrow> regular (for_each xs body)"
proof (induction xs)
  case Nil
  show ?case by (auto simp: regular_def fail_stop_def determ_def)
next
  case (Cons x xs)
  show ?case unfolding for_each_Cons_bind
    by (rule regular_bind [OF Cons.prems Cons.IH [OF Cons.prems]])
qed

lemma regular_finally:
  assumes "regular body"
  shows "regular (\<lambda>w s. case body w s of (r, s2) \<Rightarrow> (r, emit ev s2))"
  unfolding regular_def
proof
  from assms show "fail_stop (\<lambda>w s. case body w s of (r, s2) \<Rightarrow> (r, emit ev s2))"
    by (simp add: regular_def fail_stop_finally)
next
  from assms have d: "determ body" by (simp add: regular_def)
  show "determ (\<lambda>w s. case body w s of (r, s2) \<Rightarrow> (r, emit ev s2))"
    unfolding determ_def
  proof (intro allI impI)
    fix w w' s r s'
    assume run: "(case body w s of (r, s2) \<Rightarrow> (r, emit ev s2)) = (r, s')" and sp: "same_page w w'"
      and ag: "\<forall>k. clock s \<le> k \<and> k < clock s' \<longrightarrow> fails w' k = fails w k"
    from run obtain s2 where b: "body w s = (r, s2)" and s': "s' = emit ev s2"
      by (auto split: prod.splits)
    from ag s' have "\<forall>k. clock s \<le> k \<and> k < clock s2 \<longrightarrow> fails w' k = fails w k" by simp
    with d b sp have "body w' s = (r, s2)" unfolding determ_def by blast
    with s' show "(case body w' s of (r, s2) \<Rightarrow> (r, emit ev s2)) = (r, s')" by simp
  qed
qed

lemma regular_sys_call: "regular (sys_call ev)"
  by (simp add: regular_def fail_stop_sys_call determ_sys_call)

lemma regular_api: "(\<And>w w'. same_page w w' \<Longrightarrow> f w' = f w) \<Longrightarrow> regular (api ev f)"
  by (simp add: regular_def fail_stop_api determ_api)

lemma regular_with_sync_playwright: "regular body \<Longrightarrow> regular (with_sync_playwright body)"
  unfolding with_sync_playwright_bind
  by (rule regular_bind [OF regular_sys_call regular_finally])

lemma regular_with_open: "regular body \<Longrightarrow> regular (with_open path body)"
  unfolding with_open_bind
  by (rule regular_bind [OF regular_sys_call regular_finally])

lemma regular_if: "regular c \<Longrightarrow> regular d \<Longrightarrow> regular (if b then c else d)"
  by simp

lemma regular_pure:
  "regular (print x)" "regular skip" "regular (sleep d)" "regular (page_on h)"
  "regular get_console_messages" "regular (set_console_messages ms)"
  "regular (str_lower y)"
  by (simp_all add: regular_def fail_stop_pure determ_pure)

lemma regular_ops:
  "regular (launch h)"
  "regular new_context"
  "regular new_page"
  "regular (goto u)"
  "regular (wait_for_load_state st)"
  "regular (wait_for_timeout d)"
  "regular (click l)"
  "regular (screenshot p fp)"
  "regular evaluate"
  "regular close"
  "regular (input pr)"
  "regular (file_write p x)"
  by (simp_all add: launch_def new_context_def new_page_def goto_def wait_for_load_state_def
      wait_for_timeout_def click_def locator_all_def content_def screenshot_def evaluate_def
      close_def input_def file_write_def regular_api regular_sys_call same_page_def)

lemma regular_locator_all: "regular (locator_all l)"
  unfolding locator_all_def by (rule regular_api) (simp add: same_page_def)

lemma regular_content: "regular content"
  unfolding content_def by (rule regular_api) (simp add: same_page_def)

lemmas regular_intros = regular_ops regular_locator_all regular_content regular_pure regular_bind regular_steps_Nil
  regular_steps_Cons regular_for_each regular_with_sync_playwright regular_with_open
  regular_if

section \<open>The four scripts\<close>

lemma performs_capture_console: "performs capture_console (plan CaptureConsole)"
  unfolding capture_console_def plan.simps
  by (rule performs_intros refl | simp add: token_url_def button_def log_path_def)+

lemma performs_debug_indicators: "performs debug_indicators (plan DebugIndicators)"
  unfolding debug_indicators_def plan.simps
  by (rule performs_intros refl | simp add: token_url_def button_def log_path_def)+

lemma performs_get_console_logs: "performs get_console_logs (plan GetConsole)"
  unfolding get_console_logs_def plan.simps
  by (rule performs_intros refl | simp add: token_url_def button_def log_path_def)+

lemma performs_test_indicators: "performs test_indicators (plan TestIndicators)"
  unfolding test_indicators_def plan.simps
  by (rule performs_intros refl | simp add: token_url_def button_def log_path_def)+

lemma regular_capture_console: "regular capture_console"
  unfolding capture_console_def by (intro regular_intros)

lemma regular_get_console_logs: "regular get_console_logs"
  unfolding get_console_logs_def by (intro regular_intros)

lemma regular_debug_indicators: "regular debug_indicators"
  unfolding debug_indicators_def by (intro regular_intros)

lemma regular_test_indicators: "regular test_indicators"
  unfolding test_indicators_def by (intro regular_intros)

lemma run_body: "run sc iv w = script_body sc w init"
  by (cases sc) (simp_all add: run.simps capture_console_main_def debug_indicators_main_def
      get_console_main_def test_indicators_main_def)

lemma performs_body: "performs (script_body sc) (plan sc)"
  by (cases sc) (simp_all only: script_body.simps performs_capture_console
      performs_debug_indicators performs_get_console_logs performs_test_indicators)

lemma regular_body: "regular (script_body sc)"
  by (cases sc) (simp_all add: regular_capture_console regular_debug_indicators
      regular_get_console_logs regular_test_indicators)

lemma run_performs:
  assumes "run sc iv w = (r, s)"
  shows "prefix (ops (trace s)) (plan sc)" and "r = Inr () \<Longrightarrow> ops (trace s) = plan sc"
proof -
  from assms have "script_body sc w init = (r, s)" by (simp add: run_body)
  with performs_body [of sc] obtain xs where xs: "prefix xs (plan sc)"
    "ops (trace s) = ops (trace init) @ xs" "isl r \<or> xs = plan sc"
    unfolding performs_def by blast
  have "ops (trace init) = []" by (simp add: init_def ops_def)
  with xs show "prefix (ops (trace s)) (plan sc)" by simp
  from xs \<open>ops (trace init) = []\<close> show "r = Inr () \<Longrightarrow> ops (trace s) = plan sc" by auto
qed

lemma run_fail_stop:
  assumes "run sc iv w = (r, s)"
  shows "r = Inr () \<Longrightarrow> k < clock s \<Longrightarrow> fails w k = None"
    and "r = Inl e \<Longrightarrow> 0 < clock s \<and> fails w (clock s - 1) = Some e \<and> (\<forall>k < clock s - 1. fails w k = None)"
proof -
  from assms have "script_body sc w init = (r, s)" by (simp add: run_body)
  with regular_body [of sc] have *: "case r of
        Inr x \<Rightarrow> (\<forall>k. clock init \<le> k \<and> k < clock s \<longrightarrow> fails w k = None)
      | Inl e \<Rightarrow> clock init < clock s \<and> fails w (clock s - 1) = Some e \<and>
          (\<forall>k. clock init \<le> k \<and> k < clock s - 1 \<longrightarrow> fails w k = None)"
    unfolding regular_def fail_stop_def by blast
  have i: "clock init = 0" by (simp add: init_def)
  from * i show "r = Inr () \<Longrightarrow> k < clock s \<Longrightarrow> fails w k = None" by simp
  from * i show "r = Inl e \<Longrightarrow> 0 < clock s \<and> fails w (clock s - 1) = Some e \<and> (\<forall>k < clock s - 1. fails w k = None)"
    by simp
qed

lemma run_determ:
  assumes "run sc iv w = (r, s)" and "same_page w w'" and "\<forall>k < clock s. fails w' k = fails w k"
  shows "run sc iv w' = (r, s)"
proof -
  from assms have "script_body sc w init = (r, s)" by (simp add: run_body)
  moreover have "clock init = 0" by (simp add: init_def)
  ultimately have "script_body sc w' init = (r, s)"
    using regular_body [of sc] assms(2,3) unfolding regular_def determ_def by blast
  then show ?thesis by (simp add: run_body)
qed

lemma same_page_quiet: "same_page w (quiet w)" "same_page (quiet w) w"
  by (simp_all add: same_page_def quiet_def)

lemma fails_quiet [simp]: "fails (quiet w) k = None"
  by (simp add: quiet_def)

lemma run_quiet_succeeds: "fst (run sc iv (quiet w)) = Inr ()"
proof (cases "run sc iv (quiet w)")
  case (Pair r s)
  show ?thesis
  proof (cases r)
    case (Inl e)
    with Pair run_fail_stop(2) [of sc iv "quiet w" r s e] show ?thesis by simp
  next
    case (Inr u)
    with Pair show ?thesis by simp
  qed
qed

lemma run_success_quiet: "run sc iv w = (Inr (), s) \<Longrightarrow> run sc iv (quiet w) = (Inr (), s)"
  by (rule run_determ [OF _ same_page_quiet(1)]) (auto dest: run_fail_stop(1))

section \<open>Runs in which no call fails\<close>

lemma dispatch_None: "on_console s = None \<Longrightarrow> dispatch ms s = s"
  by (induction ms arbitrary: s) auto

lemma dispatch_get:
  "on_console s = Some HandleConsoleGet \<Longrightarrow>
   dispatch ms s = s\<lparr>console_messages := console_messages s @ ms\<rparr>"
  by (induction ms arbitrary: s) (auto simp: get_handle_console_def)

lemma dispatch_capture:
  "on_console s = Some HandleConsoleCapture \<Longrightarrow>
   dispatch ms s = s\<lparr>trace := trace s @ map (\<lambda>m. Print (console_line m)) (filter shown ms)\<rparr>"
  by (induction ms arbitrary: s)
    (auto simp: capture_handle_console_def shown_def console_line_def emit_def)

lemma emit_lit:
  "emit ev \<lparr>clock = c, trace = t, on_console = h, console_messages = m\<rparr>
   = \<lparr>clock = c, trace = t @ [ev], on_console = h, console_messages = m\<rparr>"
  by (simp add: emit_def)

lemma api_lit:
  "fails w c = None \<Longrightarrow>
   api ev f w \<lparr>clock = c, trace = t, on_console = None, console_messages = m\<rparr>
   = (Inr (f w), \<lparr>clock = Suc c, trace = t @ [ev], on_console = None, console_messages = m\<rparr>)"
  by (simp add: api_def dispatch_None tick_def emit_def)

lemma api_lit_fail:
  "fails w c = Some e \<Longrightarrow>
   api ev f w \<lparr>clock = c, trace = t, on_console = None, console_messages = m\<rparr>
   = (Inl e, \<lparr>clock = Suc c, trace = t, on_console = None, console_messages = m\<rparr>)"
  by (simp add: api_def dispatch_None tick_def emit_def)

lemma api_lit_get:
  "fails w c = None \<Longrightarrow>
   api ev f w \<lparr>clock = c, trace = t, on_console = Some HandleConsoleGet, console_messages = m\<rparr>
   = (Inr (f w), \<lparr>clock = Suc c, trace = t @ [ev], on_console = Some HandleConsoleGet,
        console_messages = m @ console w c\<rparr>)"
  by (simp add: api_def dispatch_get tick_def emit_def)

lemma api_lit_capture:
  "fails w c = None \<Longrightarrow>
   api ev f w \<lparr>clock = c, trace = t, on_console = Some HandleConsoleCapture, console_messages = m\<rparr>
   = (Inr (f w), \<lparr>clock = Suc c,
        trace = t @ map (\<lambda>m. Print (console_line m)) (filter shown (console w c)) @ [ev],
        on_console = Some HandleConsoleCapture, console_messages = m\<rparr>)"
  by (simp add: api_def dispatch_capture tick_def emit_def)

lemma sys_call_lit:
  "fails w c = None \<Longrightarrow>
   sys_call ev w \<lparr>clock = c, trace = t, on_console = h, console_messages = m\<rparr>
   = (Inr (), \<lparr>clock = Suc c, trace = t @ [ev], on_console = h, console_messages = m\<rparr>)"
  by (simp add: sys_call_def tick_def emit_def)

lemma sys_call_lit_fail:
  "fails w c = Some e \<Longrightarrow>
   sys_call ev w \<lparr>clock = c, trace = t, on_console = h, console_messages = m\<rparr>
   = (Inl e, \<lparr>clock = Suc c, trace = t, on_console = h, console_messages = m\<rparr>)"
  by (simp add: sys_call_def tick_def emit_def)

lemma for_each_print:
  "for_each ms (\<lambda>m. if P m then print (f m) else skip) w s
   = (Inr (), s\<lparr>trace := trace s @ map (\<lambda>m. Print (f m)) (filter P ms)\<rparr>)"
  by (induction ms arbitrary: s) (simp_all add: print_def skip_def emit_def)

lemma for_each_write:
  "(\<And>k. fails w k = None) \<Longrightarrow>
   for_each ms (\<lambda>m. file_write p (g m)) w s
   = (Inr (), s\<lparr>clock := clock s + length ms,
        trace := trace s @ map (\<lambda>m. FileWrite p (g m)) ms\<rparr>)"
  by (induction ms arbitrary: s) (simp_all add: file_write_def sys_call_def tick_def emit_def)

lemmas run_defs = with_sync_playwright_def with_open_def api_lit api_lit_get api_lit_capture
   api_lit_fail sys_call_lit sys_call_lit_fail init_def emit_lit
   launch_def new_page_def new_context_def print_def goto_def wait_for_load_state_def sleep_def
   screenshot_def click_def wait_for_timeout_def close_def input_def bind_def locator_all_def
   content_def evaluate_def page_on_def get_console_messages_def set_console_messages_def
   str_lower_def for_each_print for_each_write

lemma stdout_append [simp]: "stdout (xs @ ys) = stdout xs @ stdout ys"
  by (simp add: stdout_def)

lemma stdout_Nil [simp]: "stdout [] = []"
  by (simp add: stdout_def)

lemma stdout_Cons [simp]: "stdout (e # tr) = printed e @ stdout tr"
  by (simp add: stdout_def)

lemma stdout_Print [simp]: "stdout (map (\<lambda>m. Print (f m)) ms) = map f ms"
  by (induction ms) simp_all

lemma stdout_FileWrite [simp]: "stdout (map (\<lambda>m. FileWrite p (g m)) ms) = []"
  by (induction ms) simp_all



lemma test_indicators_quiet_clock: "clock (snd (test_indicators (quiet w) init)) = 15"
  by (simp add: test_indicators_def run_defs)

lemma run_calm: "run sc iv calm = run sc iv (quiet calm)"
  by (simp add: quiet_def calm_def)

lemma run_calm_ops: "ops (trace (snd (run sc iv calm))) = plan sc"
proof -
  have "fst (run sc iv calm) = Inr ()"
    using run_quiet_succeeds [of sc iv calm] by (simp add: run_calm)
  then have "run sc iv calm = (Inr (), snd (run sc iv calm))"
    by (simp add: prod_eq_iff)
  then show ?thesis by (rule run_performs(2)) simp
qed

section \<open>Projections of a trace\<close>

lemma filter_ops:
  assumes "\<And>e. P e \<Longrightarrow> is_op e"
  shows "filter P (ops tr) = filter P tr"
  unfolding ops_def using assms by (induction tr) auto

lemma is_ui_op: "is_ui e \<Longrightarrow> is_op e"
  by (cases e) simp_all

lemma is_browser_op_op: "is_browser_op e \<Longrightarrow> is_op e"
  by (cases e) simp_all

lemma is_input_op: "is_input e \<Longrightarrow> is_op e"
  by (cases e) simp_all

lemma count_prefix: "prefix xs ys \<Longrightarrow> length (filter P xs) \<le> length (filter P ys)"
  by (auto simp: prefix_def)

lemma test_indicators_rsi_missing:
  "test_indicators rsi_missing init =
     (Inl TimeoutError,
      \<lparr>clock = 8,
       trace = [PlaywrightStart, Launch False, NewPage, Print ''Navigating to token page...'',
         Goto token_url, WaitForLoadState ''networkidle'', Sleep 2000,
         Screenshot ''/tmp/01-before-indicators.png'' False,
         Print (check_mark @ '' Took screenshot before enabling indicators''),
         Print (nl @ ''Looking for Indicators button...''),
         Click (button ''Indicators''),
         Print (check_mark @ '' Clicked Indicators button''),
         Sleep 500,
         Print (nl @ ''Clicking RSI button...''),
         PlaywrightStop],
       on_console = None, console_messages = []\<rparr>)"
  by (simp add: test_indicators_def run_defs rsi_missing_def calm_def)

lemma debug_indicators_launch_fails:
  "debug_indicators launch_fails init =
     (Inl PlaywrightError,
      \<lparr>clock = 2, trace = [PlaywrightStart, PlaywrightStop], on_console = None,
       console_messages = []\<rparr>)"
  by (simp add: debug_indicators_def run_defs launch_fails_def calm_def)







section \<open>What a failing run leaves behind\<close>

lemma console_quiet [simp]: "console (quiet w) = console w"
  by (simp add: quiet_def)

lemma visible_append [simp]: "visible (xs @ ys) = visible xs @ visible ys"
  by (simp add: visible_def)

lemma trace_emit [simp]: "trace (emit ev s) = trace s @ [ev]"
  by (simp add: emit_def)

lemma trace_invoke_prefix: "prefix (trace s) (trace (invoke h m s))"
  by (cases h) (simp_all add: capture_handle_console_def get_handle_console_def)

lemma trace_dispatch_prefix: "prefix (trace s) (trace (dispatch ms s))"
proof (induction ms arbitrary: s)
  case Nil
  show ?case by simp
next
  case (Cons m ms)
  show ?case
  proof (cases "on_console s")
    case None
    with Cons [of s] show ?thesis by simp
  next
    case (Some h)
    have "prefix (trace s) (trace (invoke h m s))" by (rule trace_invoke_prefix)
    also have "prefix \<dots> (trace (dispatch ms (invoke h m s)))" by (rule Cons)
    finally show ?thesis using Some by simp
  qed
qed

lemma abrupt_api:
  assumes "is_call ev" and "\<And>w. f (quiet w) = f w"
  shows "abrupt (api ev f)"
  unfolding abrupt_def
proof (intro allI impI)
  fix w s r s'
  assume run: "api ev f w s = (r, s')"
  let ?d = "tick (dispatch (console w (clock s)) s)"
  have q: "api ev f (quiet w) s = (Inr (f w), emit ev ?d)"
    by (simp add: api_def assms(2))
  have p: "prefix (trace s) (trace ?d)" using trace_dispatch_prefix [of s] by simp
  show "prefix (trace s) (trace s') \<and>
     (case r of
        Inr x \<Rightarrow> api ev f (quiet w) s = (Inr x, s')
      | Inl e \<Rightarrow> (\<exists>ev' rest. is_call ev' \<and>
          visible (trace (snd (api ev f (quiet w) s))) = visible (trace s') @ ev' # rest))"
  proof (cases "fails w (clock s)")
    case None
    with run have "r = Inr (f w)" "s' = emit ev ?d" by (simp_all add: api_def)
    with q p show ?thesis by (auto intro: prefix_order.trans)
  next
    case (Some e)
    with run have r: "r = Inl e" "s' = ?d" by (simp_all add: api_def)
    from assms(1) have "visible [ev] = [ev]" by (cases ev) (simp_all add: visible_def)
    with r q p assms(1) show ?thesis by auto
  qed
qed

lemma abrupt_sys_call:
  assumes "is_call ev"
  shows "abrupt (sys_call ev)"
  unfolding abrupt_def
proof (intro allI impI)
  fix w s r s'
  assume run: "sys_call ev w s = (r, s')"
  have q: "sys_call ev (quiet w) s = (Inr (), emit ev (tick s))"
    by (simp add: sys_call_def)
  show "prefix (trace s) (trace s') \<and>
     (case r of
        Inr x \<Rightarrow> sys_call ev (quiet w) s = (Inr x, s')
      | Inl e \<Rightarrow> (\<exists>ev' rest. is_call ev' \<and>
          visible (trace (snd (sys_call ev (quiet w) s))) = visible (trace s') @ ev' # rest))"
  proof (cases "fails w (clock s)")
    case None
    with run have "r = Inr ()" "s' = emit ev (tick s)" by (simp_all add: sys_call_def)
    with q show ?thesis by auto
  next
    case (Some e)
    with run have r: "r = Inl e" "s' = tick s" by (simp_all add: sys_call_def)
    from assms have "visible [ev] = [ev]" by (cases ev) (simp_all add: visible_def)
    with r q assms show ?thesis by auto
  qed
qed

lemma abrupt_pure:
  "abrupt (print x)" "abrupt skip" "abrupt (sleep d)" "abrupt (page_on h)"
  "abrupt get_console_messages" "abrupt (set_console_messages ms)"
  "abrupt (str_lower y)"
  by (auto simp: abrupt_def print_def skip_def sleep_def page_on_def
      get_console_messages_def set_console_messages_def str_lower_def quiet_def)

lemma abrupt_bind:
  assumes m: "abrupt m" and f: "\<And>x. abrupt (f x)"
  shows "abrupt (bind m f)"
  unfolding abrupt_def
proof (intro allI impI)
  fix w s r s'
  assume run: "bind m f w s = (r, s')"
  obtain r1 s1 where m1: "m w s = (r1, s1)" by (cases "m w s")
  from m m1 have p1: "prefix (trace s) (trace s1)" unfolding abrupt_def by blast
  show "prefix (trace s) (trace s') \<and>
     (case r of
        Inr x \<Rightarrow> bind m f (quiet w) s = (Inr x, s')
      | Inl e \<Rightarrow> (\<exists>ev rest. is_call ev \<and>
          visible (trace (snd (bind m f (quiet w) s))) = visible (trace s') @ ev # rest))"
  proof (cases r1)
    case (Inl e)
    with run m1 have eq: "r = Inl e" "s' = s1" by (simp_all add: bind_def)
    from m m1 Inl obtain ev rest where ev: "is_call ev"
      "visible (trace (snd (m (quiet w) s))) = visible (trace s1) @ ev # rest"
      unfolding abrupt_def by fastforce
    obtain rq sq where mq: "m (quiet w) s = (rq, sq)" by (cases "m (quiet w) s")
    have "prefix (trace sq) (trace (snd (bind m f (quiet w) s)))"
    proof (cases rq)
      case (Inl e')
      with mq show ?thesis by (simp add: bind_def)
    next
      case (Inr x)
      obtain r2 s2 where f2: "f x (quiet w) sq = (r2, s2)" by (cases "f x (quiet w) sq")
      with f [of x] have "prefix (trace sq) (trace s2)" unfolding abrupt_def by blast
      with mq Inr f2 show ?thesis by (simp add: bind_def)
    qed
    then obtain tl where "trace (snd (bind m f (quiet w) s)) = trace sq @ tl"
      by (auto simp: prefix_def)
    with ev mq have "visible (trace (snd (bind m f (quiet w) s))) =
        visible (trace s1) @ ev # (rest @ visible tl)" by simp
    with ev(1) eq p1 show ?thesis by auto
  next
    case (Inr x)
    with run m1 have fx: "f x w s1 = (r, s')" by (simp add: bind_def)
    from m m1 Inr have mq: "m (quiet w) s = (Inr x, s1)" unfolding abrupt_def by fastforce
    then have bq: "bind m f (quiet w) s = f x (quiet w) s1" by (simp add: bind_def)
    from f [of x] fx have p2: "prefix (trace s1) (trace s')"
      and c: "case r of
        Inr y \<Rightarrow> f x (quiet w) s1 = (Inr y, s')
      | Inl e \<Rightarrow> (\<exists>ev rest. is_call ev \<and>
          visible (trace (snd (f x (quiet w) s1))) = visible (trace s') @ ev # rest)"
      unfolding abrupt_def by blast+
    from p1 p2 have "prefix (trace s) (trace s')" by (rule prefix_order.trans)
    with c show ?thesis unfolding bq by simp
  qed
qed

lemma abrupt_steps_Nil: "abrupt (steps [])"
  by (auto simp: abrupt_def)

lemma abrupt_steps_Cons: "abrupt c \<Longrightarrow> abrupt (steps cs) \<Longrightarrow> abrupt (steps (c # cs))"
  unfolding steps_Cons_bind by (rule abrupt_bind)

lemma abrupt_for_each: "(\<And>x. abrupt (body x)) \<Longrightarrow> abrupt (for_each xs body)"
proof (induction xs)
  case Nil
  show ?case by (auto simp: abrupt_def)
next
  case (Cons x xs)
  show ?case unfolding for_each_Cons_bind
    by (rule abrupt_bind [OF Cons.prems Cons.IH [OF Cons.prems]])
qed

lemma abrupt_finally:
  assumes "abrupt body" and "is_exit ex"
  shows "abrupt (\<lambda>w s. case body w s of (r, s2) \<Rightarrow> (r, emit ex s2))"
  unfolding abrupt_def
proof (intro allI impI)
  fix w s r s'
  assume "(case body w s of (r, s2) \<Rightarrow> (r, emit ex s2)) = (r, s')"
  then obtain s2 where b: "body w s = (r, s2)" and s': "s' = emit ex s2"
    by (auto split: prod.splits)
  obtain rq sq where bq: "body (quiet w) s = (rq, sq)" by (cases "body (quiet w) s")
  from assms(2) have v: "visible [ex] = []" by (cases ex) (simp_all add: visible_def)
  from assms(1) b have p: "prefix (trace s) (trace s2)"
    and c: "case r of
        Inr x \<Rightarrow> body (quiet w) s = (Inr x, s2)
      | Inl e \<Rightarrow> (\<exists>ev rest. is_call ev \<and>
          visible (trace (snd (body (quiet w) s))) = visible (trace s2) @ ev # rest)"
    unfolding abrupt_def by blast+
  from p s' have "prefix (trace s) (trace s')" by (auto simp: prefix_def)
  moreover have "case r of
        Inr x \<Rightarrow> (case body (quiet w) s of (r, s2) \<Rightarrow> (r, emit ex s2)) = (Inr x, s')
      | Inl e \<Rightarrow> (\<exists>ev rest. is_call ev \<and>
          visible (trace (snd (case body (quiet w) s of (r, s2) \<Rightarrow> (r, emit ex s2))))
            = visible (trace s') @ ev # rest)"
    using c bq s' v by (cases r) auto
  ultimately show "prefix (trace s) (trace s') \<and>
     (case r of
        Inr x \<Rightarrow> (case body (quiet w) s of (r, s2) \<Rightarrow> (r, emit ex s2)) = (Inr x, s')
      | Inl e \<Rightarrow> (\<exists>ev rest. is_call ev \<and>
          visible (trace (snd (case body (quiet w) s of (r, s2) \<Rightarrow> (r, emit ex s2))))
            = visible (trace s') @ ev # rest))" ..
qed

lemma abrupt_with_sync_playwright: "abrupt body \<Longrightarrow> abrupt (with_sync_playwright body)"
  unfolding with_sync_playwright_bind
  by (rule abrupt_bind [OF abrupt_sys_call abrupt_finally]) simp_all

lemma abrupt_with_open: "abrupt body \<Longrightarrow> abrupt (with_open path body)"
  unfolding with_open_bind
  by (rule abrupt_bind [OF abrupt_sys_call abrupt_finally]) simp_all

lemma abrupt_if: "abrupt c \<Longrightarrow> abrupt d \<Longrightarrow> abrupt (if b then c else d)"
  by simp

lemma abrupt_ops:
  "abrupt (launch h)"
  "abrupt new_context"
  "abrupt new_page"
  "abrupt (goto u)"
  "abrupt (wait_for_load_state st)"
  "abrupt (wait_for_timeout d)"
  "abrupt (click l)"
  "abrupt (screenshot p fp)"
  "abrupt evaluate"
  "abrupt close"
  "abrupt (input pr)"
  "abrupt (file_write p x)"
  by (simp_all add: launch_def new_context_def new_page_def goto_def wait_for_load_state_def
      wait_for_timeout_def click_def screenshot_def evaluate_def
      close_def input_def file_write_def abrupt_api abrupt_sys_call)

lemma abrupt_locator_all: "abrupt (locator_all l)"
  unfolding locator_all_def by (rule abrupt_api) (simp_all add: quiet_def)

lemma abrupt_content: "abrupt content"
  unfolding content_def by (rule abrupt_api) (simp_all add: quiet_def)

lemmas abrupt_intros = abrupt_ops abrupt_locator_all abrupt_content abrupt_pure abrupt_bind
  abrupt_steps_Nil abrupt_steps_Cons abrupt_for_each abrupt_with_sync_playwright
  abrupt_with_open abrupt_if

lemma abrupt_body: "abrupt (script_body sc)"
  by (cases sc)
    (simp_all only: script_body.simps capture_console_def debug_indicators_def
      get_console_logs_def test_indicators_def, (intro abrupt_intros)+)

lemma run_abrupt:
  assumes "run sc iv w = (Inl e, s)"
  shows "\<exists>ev rest. is_call ev \<and>
    visible (trace (snd (run sc iv (quiet w)))) = visible (trace s) @ ev # rest"
proof -
  from assms have "script_body sc w init = (Inl e, s)" by (simp add: run_body)
  with abrupt_body [of sc] show ?thesis unfolding abrupt_def run_body by fastforce
qed

section \<open>Outcome of a run\<close>

lemma run_outcome:
  assumes "run sc iv w = (r, s)" and "n = clock (snd (run sc iv (quiet w)))"
  shows "(r = Inr ()) = (\<forall>k<n. fails w k = None)"
    and "k < n \<Longrightarrow> fails w k = Some e \<Longrightarrow> \<forall>j<k. fails w j = None \<Longrightarrow> r = Inl e \<and> clock s = Suc k"
    and "clock s \<le> n"
proof -
  obtain sq where q: "run sc iv (quiet w) = (Inr (), sq)"
    using run_quiet_succeeds [of sc iv w] by (cases "run sc iv (quiet w)") auto
  with assms(2) have n: "n = clock sq" by simp
  have succ: "r = Inr () \<Longrightarrow> clock s = n"
  proof -
    assume "r = Inr ()"
    with assms(1) have "run sc iv (quiet w) = (Inr (), s)" by (simp add: run_success_quiet)
    with q n show "clock s = n" by simp
  qed
  have none: "\<forall>k<n. fails w k = None \<Longrightarrow> r = Inr ()"
  proof -
    assume a: "\<forall>k<n. fails w k = None"
    have "run sc iv w = (Inr (), sq)"
      by (rule run_determ [OF q same_page_quiet(2)]) (use a n in simp)
    with assms(1) show "r = Inr ()" by simp
  qed
  show first: "(r = Inr ()) = (\<forall>k<n. fails w k = None)"
    using none succ run_fail_stop(1) [OF assms(1)] by auto
  show "r = Inl e \<and> clock s = Suc k"
    if k: "k < n" "fails w k = Some e" "\<forall>j<k. fails w j = None"
  proof (cases r)
    case (Inr u)
    with succ run_fail_stop(1) [OF assms(1), of k] k show ?thesis by simp
  next
    case (Inl e')
    from run_fail_stop(2) [OF assms(1) Inl]
    have f: "0 < clock s" "fails w (clock s - 1) = Some e'" "\<forall>j < clock s - 1. fails w j = None"
      by simp_all
    from f(2) k(3) have "\<not> clock s - 1 < k" by auto
    moreover from f(3) k(2) have "\<not> k < clock s - 1" by auto
    ultimately have "clock s - 1 = k" by simp
    with f k Inl show ?thesis by simp
  qed
  show "clock s \<le> n"
  proof (cases r)
    case (Inr u)
    with succ show ?thesis by simp
  next
    case (Inl e')
    from run_fail_stop(2) [OF assms(1) Inl]
    have f: "0 < clock s" "fails w (clock s - 1) = Some e'" "\<forall>j < clock s - 1. fails w j = None"
      by simp_all
    have "clock s - 1 < n"
    proof (rule ccontr)
      assume "\<not> clock s - 1 < n"
      with f(3) have "\<forall>k<n. fails w k = None" by simp
      with first Inl show False by simp
    qed
    with f(1) show ?thesis by simp
  qed
qed

section \<open>Waiting between actions\<close>

lemma chain_prefix: "prefix xs ys \<Longrightarrow> chain p ys \<Longrightarrow> chain p xs"
proof (induction xs arbitrary: p ys)
  case Nil
  show ?case by simp
next
  case (Cons x xs)
  from Cons.prems(1) obtain zs where "ys = x # zs" "prefix xs zs" by (cases ys) auto
  with Cons show ?case by auto
qed

lemma synchronised_prefix:
  assumes "prefix xs ys" and "synchronised ys"
  shows "synchronised xs"
proof -
  from assms(1) have "set xs \<subseteq> set ys" by (rule set_mono_prefix)
  with assms(2) have a: "list_all pause_ok xs"
    by (auto simp: synchronised_def list_all_iff)
  show ?thesis
  proof (cases xs)
    case Nil
    then show ?thesis by (simp add: synchronised_def)
  next
    case (Cons x xs')
    with assms(1) obtain zs where ys: "ys = x # zs" "prefix xs' zs" by (cases ys) auto
    with assms(2) have "\<not> is_load_wait x" "chain x zs" by (simp_all add: synchronised_def)
    with ys(2) chain_prefix have "chain x xs'" by blast
    with a Cons \<open>\<not> is_load_wait x\<close> show ?thesis by (simp add: synchronised_def)
  qed
qed

lemma synchronised_plan: "synchronised (plan sc)"
  by (cases sc) (simp_all add: synchronised_def)


lemma polls_iff: "polls tr \<longleftrightarrow> \<not> distinct (filter is_query tr)"
  by (induction tr) auto

lemma is_query_op: "is_query e \<Longrightarrow> is_op e"
  by (cases e) simp_all

lemma distinct_prefix: "prefix xs ys \<Longrightarrow> distinct ys \<Longrightarrow> distinct xs"
  by (auto simp: prefix_def)

lemma plan_no_polling: "distinct (filter is_query (plan sc))"
  by (cases sc) simp_all

text \<open>
  Claim C1, as the code has it. Among the operations of every run of every script, each
  click is followed directly by a \<^verbatim>\<open>time.sleep\<close>, the navigation is followed directly by
  the wait for the load state \<^verbatim>\<open>networkidle\<close> and that wait by a sleep of two seconds; a
  load-state wait occurs nowhere else, and every pause lasts 0.5, 1 or 2 seconds
  (\<^verbatim>\<open>page.wait_for_timeout\<close>: 1 second). No script polls: no query of the page is issued
  twice, and whatever the page does the operations of a run are an initial part of the
  one sequence fixed for the script, all of it when the run returns normally.
\<close>

theorem waits_after_actions:
  assumes "tr = trace (snd (run sc iv w))"
  shows "synchronised (ops tr) \<and> \<not> polls tr \<and> prefix (ops tr) (plan sc) \<and>
    (fst (run sc iv w) = Inr () \<longrightarrow> ops tr = plan sc)"
proof -
  have r: "run sc iv w = (fst (run sc iv w), snd (run sc iv w))" by simp
  from run_performs(1) [OF r] assms have p: "prefix (ops tr) (plan sc)" by simp
  then have a: "synchronised (ops tr)" using synchronised_plan by (rule synchronised_prefix)
  from p have "prefix (filter is_query (ops tr)) (filter is_query (plan sc))"
    by (rule filter_mono_prefix)
  then have "distinct (filter is_query (ops tr))" using plan_no_polling by (rule distinct_prefix)
  then have b: "\<not> polls tr" by (simp add: polls_iff filter_ops is_query_op)
  have c: "ops tr = plan sc" if "fst (run sc iv w) = Inr ()"
    using run_performs(2) [OF r that] assms by simp
  from a b p c show ?thesis by blast
qed

theorem waits_after_actions_witness:
  "fst (run TestIndicators no_args calm) = Inr () \<and>
   filter is_wait (ops (trace (snd (run TestIndicators no_args calm)))) =
     [WaitForLoadState ''networkidle'', Sleep 2000, Sleep 500, Sleep 1000, Sleep 1000,
      Sleep 1000, WaitForTimeout 1000]"
proof -
  have s: "fst (run TestIndicators no_args calm) = Inr ()"
    using run_quiet_succeeds [of TestIndicators no_args calm] by (simp add: run_calm)
  with waits_after_actions [OF refl, of TestIndicators no_args calm]
  have "ops (trace (snd (run TestIndicators no_args calm))) = plan TestIndicators" by blast
  with s show ?thesis by (simp add: is_wait_def)
qed

text \<open>
  The claim as stated, that every wait between an action and the next capture is a
  fixed-duration sleep, fails in \<^verbatim>\<open>test-indicators.py\<close>: between the navigation and the
  first screenshot the script waits for the network to become idle.
\<close>

theorem load_state_wait_counterexample:
  "ops (trace (snd (run TestIndicators no_args calm))) ! 3 =
     Goto ''http://localhost:3005/token/token-7'' \<and>
   ops (trace (snd (run TestIndicators no_args calm))) ! 4 = WaitForLoadState ''networkidle'' \<and>
   is_wait (WaitForLoadState ''networkidle'') \<and> \<not> is_pause (WaitForLoadState ''networkidle'') \<and>
   ops (trace (snd (run TestIndicators no_args calm))) ! 6 = Screenshot ''/tmp/01-before-indicators.png'' False"
  by (simp add: run_calm_ops is_wait_def)

section \<open>Failures\<close>

text \<open>
  Claim C2. Let \<open>n\<close> be the number of fallible calls a script makes when none fails. The
  run returns normally exactly when none of these \<open>n\<close> calls fails. When the \<open>k\<close>-th call
  is the first to fail, with error \<open>e\<close>, the run ends with \<open>e\<close> and the failed call is the
  last call attempted: nothing is retried, and no call is made in reaction to the failure.
  The operations performed are an initial part of the script's fixed sequence. A run
  that fails reports nothing: all it has done and printed, the exits of its \<^verbatim>\<open>with\<close>
  blocks apart, is what the run without failure does and prints up to one of its calls,
  the call that failed.
\<close>

theorem failure_propagates:
  assumes "run sc iv w = (r, s)" and "n = clock (snd (run sc iv (quiet w)))"
  shows "((r = Inr ()) = (\<forall>k<n. fails w k = None)) \<and>
    (\<forall>k e. k < n \<and> fails w k = Some e \<and> (\<forall>j<k. fails w j = None)
       \<longrightarrow> r = Inl e \<and> clock s = Suc k) \<and>
    prefix (ops (trace s)) (plan sc) \<and>
    (\<forall>e. r = Inl e \<longrightarrow>
       (\<exists>ev rest. is_call ev \<and>
          visible (trace (snd (run sc iv (quiet w)))) = visible (trace s) @ ev # rest))"
proof -
  have a: "(r = Inr ()) = (\<forall>k<n. fails w k = None)"
    by (rule run_outcome(1) [OF assms])
  have b: "r = Inl e \<and> clock s = Suc k"
    if "k < n" "fails w k = Some e" "\<forall>j<k. fails w j = None" for k e
    using that by (rule run_outcome(2) [OF assms])
  have c: "prefix (ops (trace s)) (plan sc)" by (rule run_performs(1) [OF assms(1)])
  have d: "\<exists>ev rest. is_call ev \<and>
      visible (trace (snd (run sc iv (quiet w)))) = visible (trace s) @ ev # rest"
    if "r = Inl e" for e
  proof (rule run_abrupt)
    from assms(1) that show "run sc iv w = (Inl e, s)" by simp
  qed
  from a b c d show ?thesis by blast
qed

text \<open>
  In \<^verbatim>\<open>test-indicators.py\<close> the click on the RSI button is call number 7 of 15. When it
  times out, the run ends with that timeout after 8 calls.
\<close>

theorem failure_propagates_witness:
  "fst (run TestIndicators no_args rsi_missing) = Inl TimeoutError \<and>
   clock (snd (run TestIndicators no_args rsi_missing)) = 8"
proof -
  have r: "run TestIndicators no_args rsi_missing =
      (fst (run TestIndicators no_args rsi_missing), snd (run TestIndicators no_args rsi_missing))"
    by simp
  have n: "15 = clock (snd (run TestIndicators no_args (quiet rsi_missing)))"
    by (simp add: run_body test_indicators_quiet_clock)
  have f: "(7::nat) < 15 \<and> fails rsi_missing 7 = Some TimeoutError \<and>
      (\<forall>j<7. fails rsi_missing j = None)"
    by (simp add: rsi_missing_def calm_def)
  from failure_propagates [OF r n]
  have "\<forall>k e. k < 15 \<and> fails rsi_missing k = Some e \<and> (\<forall>j<k. fails rsi_missing j = None)
       \<longrightarrow> fst (run TestIndicators no_args rsi_missing) = Inl e \<and>
           clock (snd (run TestIndicators no_args rsi_missing)) = Suc k"
    by (rule conjunct1 [OF conjunct2])
  then have "(7::nat) < 15 \<and> fails rsi_missing 7 = Some TimeoutError \<and> (\<forall>j<7. fails rsi_missing j = None)
       \<longrightarrow> fst (run TestIndicators no_args rsi_missing) = Inl TimeoutError \<and>
           clock (snd (run TestIndicators no_args rsi_missing)) = Suc 7"
    by blast
  with f show ?thesis by simp
qed

section \<open>Files written\<close>

lemma artifacts_ops: "artifacts (ops tr) = artifacts tr"
  unfolding artifacts_def ops_def
proof (induction tr)
  case Nil
  show ?case by simp
next
  case (Cons e tr)
  then show ?case by (cases e) simp_all
qed

lemma artifacts_prefix: "prefix xs ys \<Longrightarrow> prefix (artifacts xs) (artifacts ys)"
  by (auto simp: prefix_def artifacts_def)

lemma artifacts_plan: "artifacts (plan sc) = outputs sc"
  by (cases sc) (simp_all add: artifacts_def log_path_def)

text \<open>
  Claim C3, as the code has it. Whatever the world does, the files a run has written are
  an initial part of a fixed list that depends on the script alone, and a run that
  returns normally has written exactly that list: four screenshots for
  \<^verbatim>\<open>test-indicators.py\<close>, one screenshot for \<^verbatim>\<open>debug-indicators.py\<close>, the text file
  \<^verbatim>\<open>/tmp/console-logs.txt\<close> for \<^verbatim>\<open>get-console.py\<close>, nothing for \<^verbatim>\<open>capture-console.py\<close>.
\<close>

theorem artifacts_fixed:
  "prefix (artifacts (trace (snd (run sc iv w)))) (outputs sc) \<and>
   (fst (run sc iv w) = Inr () \<longrightarrow> artifacts (trace (snd (run sc iv w))) = outputs sc)"
proof -
  have r: "run sc iv w = (fst (run sc iv w), snd (run sc iv w))" by simp
  from run_performs(1) [OF r] have "prefix (artifacts (ops (trace (snd (run sc iv w))))) (artifacts (plan sc))"
    by (rule artifacts_prefix)
  then have a: "prefix (artifacts (trace (snd (run sc iv w)))) (outputs sc)"
    by (simp add: artifacts_ops artifacts_plan)
  have "artifacts (trace (snd (run sc iv w))) = outputs sc" if "fst (run sc iv w) = Inr ()"
  proof -
    from run_performs(2) [OF r that] have "artifacts (ops (trace (snd (run sc iv w)))) = artifacts (plan sc)"
      by simp
    then show ?thesis by (simp add: artifacts_ops artifacts_plan)
  qed
  with a show ?thesis by blast
qed

theorem artifacts_fixed_witness:
  "fst (run TestIndicators no_args calm) = Inr () \<and>
   artifacts (trace (snd (run TestIndicators no_args calm))) =
     [Image ''/tmp/01-before-indicators.png'', Image ''/tmp/02-after-rsi.png'',
      Image ''/tmp/03-after-macd.png'', Image ''/tmp/04-all-indicators.png'']"
proof -
  have s: "fst (run TestIndicators no_args calm) = Inr ()"
    using run_quiet_succeeds [of TestIndicators no_args calm] by (simp add: run_calm)
  with artifacts_fixed [of TestIndicators no_args calm] show ?thesis by simp
qed

text \<open>
  The claim as stated, that every run of \<^verbatim>\<open>test-indicators.py\<close> writes exactly the four
  screenshots, fails when the RSI button is missing: the click times out and the run
  ends with the first screenshot alone.
\<close>

theorem fewer_screenshots_counterexample:
  "fst (run TestIndicators no_args rsi_missing) = Inl TimeoutError \<and>
   artifacts (trace (snd (run TestIndicators no_args rsi_missing))) =
     [Image ''/tmp/01-before-indicators.png''] \<and>
   artifacts (trace (snd (run TestIndicators no_args rsi_missing))) \<noteq> outputs TestIndicators"
  by (simp add: run_body test_indicators_rsi_missing artifacts_def)

section \<open>Order of the steps\<close>

text \<open>
  Claim C5. The navigation, the clicks and the screenshots of \<^verbatim>\<open>test-indicators.py\<close>
  occur in one fixed order: a run that returns normally performs exactly this sequence,
  each step once, and every other run performs an initial part of it, so that nothing
  in the world changes the order, repeats a step or adds one. Nothing is retried: the
  run makes at most 15 calls, it returns normally exactly when none of them fails, and
  the first call that fails is the last one made.
\<close>

theorem test_indicators_sequence:
  assumes "run TestIndicators iv w = (r, s)"
  shows \<open>prefix (filter is_ui (trace s))
     [Goto ''http://localhost:3005/token/token-7'',
      Screenshot ''/tmp/01-before-indicators.png'' False,
      Click (First (Locator ''button:has-text("Indicators")'')),
      Click (First (Locator ''button:has-text("RSI")'')),
      Screenshot ''/tmp/02-after-rsi.png'' False,
      Click (First (Locator ''button:has-text("MACD")'')),
      Screenshot ''/tmp/03-after-macd.png'' False,
      Click (First (Locator ''button:has-text("Stoch RSI")'')),
      Screenshot ''/tmp/04-all-indicators.png'' False] \<and>
   (r = Inr () \<longrightarrow>
    filter is_ui (trace s) =
     [Goto ''http://localhost:3005/token/token-7'',
      Screenshot ''/tmp/01-before-indicators.png'' False,
      Click (First (Locator ''button:has-text("Indicators")'')),
      Click (First (Locator ''button:has-text("RSI")'')),
      Screenshot ''/tmp/02-after-rsi.png'' False,
      Click (First (Locator ''button:has-text("MACD")'')),
      Screenshot ''/tmp/03-after-macd.png'' False,
      Click (First (Locator ''button:has-text("Stoch RSI")'')),
      Screenshot ''/tmp/04-all-indicators.png'' False]) \<and>
   prefix (ops (trace s)) (plan TestIndicators) \<and>
   ((r = Inr ()) = (\<forall>k<15. fails w k = None)) \<and>
   (\<forall>k e. k < 15 \<and> fails w k = Some e \<and> (\<forall>j<k. fails w j = None)
      \<longrightarrow> r = Inl e \<and> clock s = Suc k) \<and>
   clock s \<le> 15\<close>
proof -
  let ?tr = "trace s"
  have n: "15 = clock (snd (run TestIndicators iv (quiet w)))"
    by (simp add: run_body test_indicators_quiet_clock)
  have p: "prefix (ops ?tr) (plan TestIndicators)" by (rule run_performs(1) [OF assms])
  then have "prefix (filter is_ui (ops ?tr)) (filter is_ui (plan TestIndicators))"
    by (rule filter_mono_prefix)
  then have a: "prefix (filter is_ui ?tr) (filter is_ui (plan TestIndicators))"
    by (simp add: filter_ops is_ui_op)
  have b: "filter is_ui ?tr = filter is_ui (plan TestIndicators)" if "r = Inr ()"
  proof -
    from run_performs(2) [OF assms that]
    have "filter is_ui (ops ?tr) = filter is_ui (plan TestIndicators)" by simp
    then show ?thesis by (simp add: filter_ops is_ui_op)
  qed
  have c: \<open>filter is_ui (plan TestIndicators) =
     [Goto ''http://localhost:3005/token/token-7'',
      Screenshot ''/tmp/01-before-indicators.png'' False,
      Click (First (Locator ''button:has-text("Indicators")'')),
      Click (First (Locator ''button:has-text("RSI")'')),
      Screenshot ''/tmp/02-after-rsi.png'' False,
      Click (First (Locator ''button:has-text("MACD")'')),
      Screenshot ''/tmp/03-after-macd.png'' False,
      Click (First (Locator ''button:has-text("Stoch RSI")'')),
      Screenshot ''/tmp/04-all-indicators.png'' False]\<close>
    by simp
  have d: "(r = Inr ()) = (\<forall>k<15. fails w k = None)"
    by (rule run_outcome(1) [OF assms n])
  have e: "r = Inl e \<and> clock s = Suc k"
    if "k < 15" "fails w k = Some e" "\<forall>j<k. fails w j = None" for k e
    using that by (rule run_outcome(2) [OF assms n])
  have f: "clock s \<le> 15" by (rule run_outcome(3) [OF assms n])
  from a b p d e f show ?thesis unfolding c by blast
qed

theorem test_indicators_sequence_witness:
  \<open>fst (run TestIndicators no_args calm) = Inr () \<and>
   filter is_ui (trace (snd (run TestIndicators no_args calm))) =
     [Goto ''http://localhost:3005/token/token-7'',
      Screenshot ''/tmp/01-before-indicators.png'' False,
      Click (First (Locator ''button:has-text("Indicators")'')),
      Click (First (Locator ''button:has-text("RSI")'')),
      Screenshot ''/tmp/02-after-rsi.png'' False,
      Click (First (Locator ''button:has-text("MACD")'')),
      Screenshot ''/tmp/03-after-macd.png'' False,
      Click (First (Locator ''button:has-text("Stoch RSI")'')),
      Screenshot ''/tmp/04-all-indicators.png'' False]\<close>
proof -
  have s: "fst (run TestIndicators no_args calm) = Inr ()"
    using run_quiet_succeeds [of TestIndicators no_args calm] by (simp add: run_calm)
  then have r: "run TestIndicators no_args calm = (Inr (), snd (run TestIndicators no_args calm))"
    by (simp add: prod_eq_iff)
  from test_indicators_sequence [OF r] s show ?thesis by blast
qed

section \<open>The end of a run\<close>

text \<open>
  Claim C6. In a run that returns normally, \<^verbatim>\<open>browser.close()\<close> is called once, it is the
  last operation and the last browser operation. In \<^verbatim>\<open>capture-console.py\<close> and
  \<^verbatim>\<open>get-console.py\<close> the operation just before it is the \<^verbatim>\<open>input()\<close> prompt; in
  \<^verbatim>\<open>debug-indicators.py\<close> and \<^verbatim>\<open>test-indicators.py\<close> no input is read at all.
\<close>

theorem run_ends_with_close:
  assumes "fst (run sc iv w) = Inr ()" and "tr = trace (snd (run sc iv w))"
  shows "last (ops tr) = Close \<and>
     last (filter is_browser_op tr) = Close \<and>
     length (filter (\<lambda>e. e = Close) tr) = 1 \<and>
     (sc = CaptureConsole \<longrightarrow> last (butlast (ops tr)) = Input ''Press Enter to close browser...'') \<and>
     (sc = GetConsole \<longrightarrow> last (butlast (ops tr)) = Input ''Press Enter...'') \<and>
     (sc = DebugIndicators \<or> sc = TestIndicators \<longrightarrow> filter is_input tr = [])"
proof -
  from assms(1) have r: "run sc iv w = (Inr (), snd (run sc iv w))" by (simp add: prod_eq_iff)
  from run_performs(2) [OF r] assms(2) have o: "ops tr = plan sc" by simp
  have b: "filter is_browser_op tr = filter is_browser_op (plan sc)"
    using o filter_ops [of is_browser_op tr] by (simp add: is_browser_op_op)
  have i: "filter is_input tr = filter is_input (plan sc)"
    using o filter_ops [of is_input tr] by (simp add: is_input_op)
  have c: "filter (\<lambda>e. e = Close) tr = filter (\<lambda>e. e = Close) (plan sc)"
    using o filter_ops [of "\<lambda>e. e = Close" tr] by simp
  show ?thesis unfolding o b i c by (cases sc) simp_all
qed

theorem run_ends_with_close_witness:
  "fst (run GetConsole no_args calm) = Inr () \<and>
   last (butlast (ops (trace (snd (run GetConsole no_args calm))))) = Input ''Press Enter...'' \<and>
   last (ops (trace (snd (run GetConsole no_args calm)))) = Close"
proof -
  have s: "fst (run GetConsole no_args calm) = Inr ()"
    using run_quiet_succeeds [of GetConsole no_args calm] by (simp add: run_calm)
  from run_ends_with_close [OF s refl] s show ?thesis by simp
qed

section \<open>One browser, one page\<close>

lemma browsers_launched_ops: "browsers_launched (ops tr) = browsers_launched tr"
  unfolding browsers_launched_def by (subst filter_ops) auto

lemma pages_created_ops: "pages_created (ops tr) = pages_created tr"
  unfolding pages_created_def by (subst filter_ops) auto

lemma page_step_skip: "\<not> is_op e \<Longrightarrow> page_step n e = n"
  by (cases e) simp_all

lemma pages_open_ops: "foldl page_step n (ops tr) = foldl page_step n tr"
  unfolding ops_def by (induction tr arbitrary: n) (simp_all add: page_step_skip)

lemma page_step_le: "page_step n e \<le> (if e = NewPage then Suc n else n)"
  by (cases e) simp_all

lemma pages_open_le: "foldl page_step n tr \<le> n + pages_created tr"
  unfolding pages_created_def
proof (induction tr arbitrary: n)
  case Nil
  show ?case by simp
next
  case (Cons e tr)
  have "foldl page_step (page_step n e) tr
      \<le> page_step n e + length (filter (\<lambda>e. e = NewPage) tr)"
    by (rule Cons.IH)
  with page_step_le [of n e] show ?case by (simp split: if_splits)
qed

lemma plan_counts:
  "browsers_launched (plan sc) = 1" "pages_created (plan sc) = 1" "pages_open (plan sc) = 0"
  "length (filter (\<lambda>e. e = Close) (plan sc)) = 1"
  by (cases sc; simp add: browsers_launched_def pages_created_def pages_open_def)+

text \<open>
  Claim C8, as the code has it. In every run at most one browser is launched and at most
  one page is created, and at no point of the run is more than one page open. A run that
  returns normally has launched exactly one browser, created exactly one page and
  closed the browser, once, before it returns.
\<close>

theorem one_browser_one_page:
  assumes "tr = trace (snd (run sc iv w))"
  shows "browsers_launched tr \<le> 1 \<and> pages_created tr \<le> 1 \<and> pages_open (take n tr) \<le> 1 \<and>
    (fst (run sc iv w) = Inr () \<longrightarrow>
       browsers_launched tr = 1 \<and> pages_created tr = 1 \<and>
       length (filter (\<lambda>e. e = Close) tr) = 1 \<and> pages_open tr = 0)"
proof -
  have r: "run sc iv w = (fst (run sc iv w), snd (run sc iv w))" by simp
  from run_performs(1) [OF r] assms have p: "prefix (ops tr) (plan sc)" by simp
  have "browsers_launched (ops tr) \<le> browsers_launched (plan sc)"
    unfolding browsers_launched_def using p by (rule count_prefix)
  then have a: "browsers_launched tr \<le> 1" by (simp add: browsers_launched_ops plan_counts)
  have "pages_created (ops tr) \<le> pages_created (plan sc)"
    unfolding pages_created_def using p by (rule count_prefix)
  then have b: "pages_created tr \<le> 1" by (simp add: pages_created_ops plan_counts)
  have "pages_open (take n tr) \<le> pages_created (take n tr)"
    using pages_open_le [of 0 "take n tr"] by (simp add: pages_open_def)
  also have "\<dots> \<le> pages_created tr"
    unfolding pages_created_def by (rule count_prefix) (rule take_is_prefix)
  finally have c: "pages_open (take n tr) \<le> 1" using b by simp
  have d: "browsers_launched tr = 1 \<and> pages_created tr = 1 \<and>
       length (filter (\<lambda>e. e = Close) tr) = 1 \<and> pages_open tr = 0"
    if "fst (run sc iv w) = Inr ()"
  proof -
    from run_performs(2) [OF r that] assms have o: "ops tr = plan sc" by simp
    have "browsers_launched (ops tr) = 1" "pages_created (ops tr) = 1"
      "pages_open (ops tr) = 0" "length (filter (\<lambda>e. e = Close) (ops tr)) = 1"
      unfolding o by (rule plan_counts)+
    moreover have "filter (\<lambda>e. e = Close) (ops tr) = filter (\<lambda>e. e = Close) tr"
      by (rule filter_ops) simp
    ultimately show ?thesis
      by (simp add: browsers_launched_ops pages_created_ops pages_open_def pages_open_ops)
  qed
  from a b c d show ?thesis by blast
qed

theorem one_browser_one_page_witness:
  "fst (run DebugIndicators no_args calm) = Inr () \<and>
   browsers_launched (trace (snd (run DebugIndicators no_args calm))) = 1 \<and>
   pages_created (trace (snd (run DebugIndicators no_args calm))) = 1 \<and>
   pages_open (trace (snd (run DebugIndicators no_args calm))) = 0"
proof -
  have s: "fst (run DebugIndicators no_args calm) = Inr ()"
    using run_quiet_succeeds [of DebugIndicators no_args calm] by (simp add: run_calm)
  with one_browser_one_page [OF refl, of DebugIndicators no_args calm 0] show ?thesis by blast
qed

text \<open>
  The claim as stated, that every run launches exactly one browser and creates exactly
  one page, fails when the browser cannot be launched: the run ends with no browser and
  no page.
\<close>

theorem no_page_counterexample:
  "fst (run DebugIndicators no_args launch_fails) = Inl PlaywrightError \<and>
   browsers_launched (trace (snd (run DebugIndicators no_args launch_fails))) = 0 \<and>
   pages_created (trace (snd (run DebugIndicators no_args launch_fails))) = 0"
  by (simp add: run_body debug_indicators_launch_fails browsers_launched_def pages_created_def)

section \<open>Console messages in \<^verbatim>\<open>get-console.py\<close>\<close>





section \<open>Console messages in \<^verbatim>\<open>capture-console.py\<close>\<close>



section \<open>The search for \<^verbatim>\<open>rsi\<close> in \<^verbatim>\<open>debug-indicators.py\<close>\<close>












end
